theory Spec2Isabelle
  imports Complex_Main "HOL-Library.Char_ord" "HOL-Library.List_Lexorder" "HOL-Library.Multiset"
    "HOL-Library.Log_Nat"
begin

section \<open>Numbers, errors and rounding\<close>

text \<open>
  The analytics and utility functions compute with Python floats. Their arithmetic is
  modelled as binary64 arithmetic in the next section: every operation returns the float
  nearest to the exact result, or an infinity or NaN. The period aggregation further down
  works on exact numbers instead, a number there being the rational it denotes; it uses
  \<open>mean\<close> and \<open>py_round\<close> as they are defined on rationals. Every exception the source can
  raise is a value of \<open>error\<close>.
\<close>

datatype error =
  ValueError | StatisticsError | TypeError | ZeroDivisionError | AttributeError | KeyError
  | OverflowError

text \<open>Python's \<open>round(x)\<close>: the nearest integer, a tie going to the even one.\<close>

definition py_round_int :: "rat \<Rightarrow> int" where
  "py_round_int x =
     (let f = \<lfloor>x\<rfloor>; d = x - of_int f
      in if d < 1 / 2 then f else if 1 / 2 < d then f + 1 else if even f then f else f + 1)"

text \<open>\<open>round(x, n)\<close> on an exact number: \<open>x\<close> rounded to \<open>n\<close> decimal places.\<close>

definition py_round :: "rat \<Rightarrow> nat \<Rightarrow> rat" where
  "py_round x n = of_int (py_round_int (x * 10 ^ n)) / 10 ^ n"

section \<open>Binary64 floats\<close>

text \<open>
  A float is a finite binary64 number, given by the rational it denotes, or an infinity,
  or NaN. The sign of a zero is not kept: \<open>0.0\<close> and \<open>-0.0\<close> are equal in Python and
  no function here tells them apart.
\<close>

datatype pyfloat = Fin rat | PInf | NInf | NaN

text \<open>
  \<open>ilog2 x\<close> is the exponent \<open>e\<close> with \<open>2 ^ e \<le> |x| < 2 ^ (e + 1)\<close>, found from the bit
  lengths of numerator and denominator. \<open>nearest_float x\<close> rounds a rational to binary64:
  the spacing of the floats around \<open>x\<close> is \<open>2 ^ q\<close> with \<open>q = max e (-1022) - 52\<close> (53
  significant bits, subnormal below \<open>2 ^ -1022\<close>), \<open>x\<close> goes to the nearest multiple of the
  spacing, a tie to the even multiple, and a result of magnitude \<open>2 ^ 1024\<close> or more is
  an infinity.
\<close>

definition ilog2 :: "rat \<Rightarrow> int" where
  "ilog2 x =
     (case quotient_of \<bar>x\<bar> of
        (p, q) \<Rightarrow> let d = bitlen p - bitlen q in if power_int 2 d \<le> \<bar>x\<bar> then d else d - 1)"

definition nearest_float :: "rat \<Rightarrow> pyfloat" where
  "nearest_float x =
     (if x = 0 then Fin 0
      else
        let q = max (ilog2 x) (- 1022) - 52;
            r = of_int (py_round_int (x / power_int 2 q)) * power_int 2 q
        in if power_int 2 1024 \<le> \<bar>r\<bar> then (if 0 < x then PInf else NInf) else Fin r)"

text \<open>A rational is a float when rounding leaves it as it is.\<close>

definition is_float :: "rat \<Rightarrow> bool" where
  "is_float x = (nearest_float x = Fin x)"

text \<open>The value of a decimal literal of the source, such as \<open>9.8\<close>.\<close>

definition float_literal :: "rat \<Rightarrow> rat" where
  "float_literal x = (case nearest_float x of Fin r \<Rightarrow> r | _ \<Rightarrow> 0)"

text \<open>
  Addition, subtraction, multiplication and division of floats follow IEEE 754: the exact
  result of finite operands is rounded, an infinity absorbs, and \<open>inf - inf\<close>, \<open>inf * 0\<close>
  and \<open>inf / inf\<close> are NaN. None of them raises, except that Python's division raises
  \<open>ZeroDivisionError\<close> at a zero divisor.
\<close>

fun is_negative :: "pyfloat \<Rightarrow> bool" where
  "is_negative (Fin x) = (x < 0)"
| "is_negative NInf = True"
| "is_negative _ = False"

definition signed_inf :: "bool \<Rightarrow> pyfloat" where
  "signed_inf negative = (if negative then NInf else PInf)"

fun float_neg :: "pyfloat \<Rightarrow> pyfloat" where
  "float_neg (Fin x) = Fin (- x)"
| "float_neg PInf = NInf"
| "float_neg NInf = PInf"
| "float_neg NaN = NaN"

fun float_add :: "pyfloat \<Rightarrow> pyfloat \<Rightarrow> pyfloat" where
  "float_add (Fin x) (Fin y) = nearest_float (x + y)"
| "float_add NaN b = NaN"
| "float_add a NaN = NaN"
| "float_add PInf NInf = NaN"
| "float_add NInf PInf = NaN"
| "float_add PInf b = PInf"
| "float_add NInf b = NInf"
| "float_add a b = b"

definition float_sub :: "pyfloat \<Rightarrow> pyfloat \<Rightarrow> pyfloat" where
  "float_sub a b = float_add a (float_neg b)"

fun float_mul :: "pyfloat \<Rightarrow> pyfloat \<Rightarrow> pyfloat" where
  "float_mul (Fin x) (Fin y) = nearest_float (x * y)"
| "float_mul NaN b = NaN"
| "float_mul a NaN = NaN"
| "float_mul a b =
     (if a = Fin 0 \<or> b = Fin 0 then NaN else signed_inf (is_negative a \<noteq> is_negative b))"

fun float_div :: "pyfloat \<Rightarrow> pyfloat \<Rightarrow> pyfloat" where
  "float_div (Fin x) (Fin y) = nearest_float (x / y)"
| "float_div NaN b = NaN"
| "float_div a NaN = NaN"
| "float_div (Fin x) b = Fin 0"
| "float_div a (Fin y) = signed_inf (is_negative a \<noteq> (y < 0))"
| "float_div a b = NaN"

definition float_truediv :: "pyfloat \<Rightarrow> pyfloat \<Rightarrow> error + pyfloat" where
  "float_truediv a b = (if b = Fin 0 then Inl ZeroDivisionError else Inr (float_div a b))"

text \<open>
  The quotient \<open>a / b\<close> of two integers is the float nearest to the exact quotient;
  it raises \<open>OverflowError\<close> when that is beyond the floats.
\<close>

definition int_truediv :: "int \<Rightarrow> int \<Rightarrow> error + pyfloat" where
  "int_truediv a b =
     (if b = 0 then Inl ZeroDivisionError
      else case nearest_float (of_int a / of_int b) of
             Fin q \<Rightarrow> Inr (Fin q)
           | _ \<Rightarrow> Inl OverflowError)"

text \<open>
  \<open>round(x, n)\<close> on a float rounds the exact value of \<open>x\<close> to \<open>n\<close> decimal places, a tie
  going to the even last digit, and returns the float nearest to that decimal; an infinity
  or NaN is returned as it is. \<open>round(x)\<close> returns an integer and raises \<open>OverflowError\<close>
  at an infinity and \<open>ValueError\<close> at NaN.
\<close>

fun float_round :: "pyfloat \<Rightarrow> nat \<Rightarrow> pyfloat" where
  "float_round (Fin x) n = nearest_float (of_int (py_round_int (x * 10 ^ n)) / 10 ^ n)"
| "float_round a n = a"

fun float_round_int :: "pyfloat \<Rightarrow> error + int" where
  "float_round_int (Fin x) = Inr (py_round_int x)"
| "float_round_int NaN = Inl ValueError"
| "float_round_int a = Inl OverflowError"

text \<open>
  Notions for the properties. \<open>rounded_to_decimals n x y\<close> says in the words of the
  specification that \<open>y\<close> is \<open>x\<close> rounded to \<open>n\<close> decimal places: \<open>y\<close> is the float
  nearest to \<open>k / 10 ^ n\<close>, where \<open>k\<close> is the integer nearest to \<open>x * 10 ^ n\<close>, the
  even one of the two at a tie. A positive float is a float above zero.
\<close>

definition rounded_to_decimals :: "nat \<Rightarrow> pyfloat \<Rightarrow> pyfloat \<Rightarrow> bool" where
  "rounded_to_decimals n x y =
     (case x of
        Fin v \<Rightarrow>
          (\<exists>k::int. \<bar>of_int k - v * 10 ^ n\<bar> \<le> 1 / 2
             \<and> (\<bar>of_int k - v * 10 ^ n\<bar> = 1 / 2 \<longrightarrow> even k)
             \<and> y = nearest_float (of_int k / 10 ^ n))
      | _ \<Rightarrow> y = x)"

definition positive_float :: "rat \<Rightarrow> bool" where
  "positive_float x = (is_float x \<and> 0 < x)"

section \<open>analytics.calculate\_change\<close>

text \<open>The arguments are finite floats or \<open>None\<close>.\<close>

record change =
  absolute :: pyfloat
  percentage :: pyfloat

definition calculate_change :: "rat option \<Rightarrow> rat option \<Rightarrow> error + change" where
  "calculate_change old_value new_value =
     (case (old_value, new_value) of
        (None, _) \<Rightarrow> Inr \<lparr>absolute = Fin 0, percentage = Fin 0\<rparr>
      | (_, None) \<Rightarrow> Inr \<lparr>absolute = Fin 0, percentage = Fin 0\<rparr>
      | (Some old, Some new) \<Rightarrow>
          if old = 0 then Inr \<lparr>absolute = Fin 0, percentage = Fin 0\<rparr>
          else
            let absolute_change = float_sub (Fin new) (Fin old)
            in (case float_truediv absolute_change (Fin old) of
                  Inl e \<Rightarrow> Inl e
                | Inr q \<Rightarrow>
                    let percentage_change = float_mul q (Fin 100)
                    in Inr \<lparr>absolute = float_round absolute_change 2,
                            percentage = float_round percentage_change 2\<rparr>))"

section \<open>utils.calculate\_bmi\<close>

text \<open>
  \<open>height_m ** 2\<close> is computed by the \<open>pow\<close> of the C library, whose last bit is not
  fixed by any standard; Python raises \<open>OverflowError\<close> when it overflows. The model
  takes the squaring as the parameter \<open>float_pow2\<close>.
\<close>

definition calculate_bmi ::
  "(pyfloat \<Rightarrow> error + pyfloat) \<Rightarrow> rat \<Rightarrow> rat \<Rightarrow> error + pyfloat" where
  "calculate_bmi float_pow2 weight_kg height_cm =
     (if weight_kg \<le> 0 \<or> height_cm \<le> 0 then Inr (Fin 0)
      else
        case float_truediv (Fin height_cm) (Fin 100) of
          Inl e \<Rightarrow> Inl e
        | Inr height_m \<Rightarrow>
        case float_pow2 height_m of
          Inl e \<Rightarrow> Inl e
        | Inr square \<Rightarrow>
        case float_truediv (Fin weight_kg) square of
          Inl e \<Rightarrow> Inl e
        | Inr bmi \<Rightarrow> Inr (float_round bmi 1))"

section \<open>analytics.calculate\_statistics\<close>

text \<open>
  The built-ins \<open>min\<close> and \<open>max\<close> walk the list and keep the first extreme element;
  they raise \<open>ValueError\<close> on an empty list. \<open>statistics.mean\<close> and
  \<open>statistics.median\<close> raise \<open>StatisticsError\<close> on an empty list. The mean is the exact
  sum over the count; on floats that exact quotient is then converted to the nearest
  float. The median sorts and takes the middle element, or adds the two middle elements
  and divides by 2, in float arithmetic, when the count is even.
\<close>

fun py_min :: "rat list \<Rightarrow> error + rat" where
  "py_min [] = Inl ValueError"
| "py_min (x # xs) = Inr (fold (\<lambda>item minitem. if item < minitem then item else minitem) xs x)"

fun py_max :: "rat list \<Rightarrow> error + rat" where
  "py_max [] = Inl ValueError"
| "py_max (x # xs) = Inr (fold (\<lambda>item maxitem. if maxitem < item then item else maxitem) xs x)"

definition mean :: "rat list \<Rightarrow> error + rat" where
  "mean data =
     (let n = length data
      in if n < 1 then Inl StatisticsError else Inr (sum_list data / of_nat n))"

definition mean_float :: "rat list \<Rightarrow> error + pyfloat" where
  "mean_float data = (case mean data of Inl e \<Rightarrow> Inl e | Inr m \<Rightarrow> Inr (nearest_float m))"

definition median :: "rat list \<Rightarrow> error + pyfloat" where
  "median data0 =
     (let data = sort data0; n = length data
      in if n = 0 then Inl StatisticsError
         else if n mod 2 = 1 then Inr (Fin (data ! (n div 2)))
         else let i = n div 2
              in float_truediv (float_add (Fin (data ! (i - 1))) (Fin (data ! i))) (Fin 2))"

record stats =
  min_value :: pyfloat
  max_value :: pyfloat
  average :: pyfloat
  median_value :: pyfloat

definition calculate_statistics :: "rat list \<Rightarrow> error + stats" where
  "calculate_statistics values =
     (if values = []
      then Inr \<lparr>min_value = Fin 0, max_value = Fin 0, average = Fin 0, median_value = Fin 0\<rparr>
      else
        case py_min values of Inl e \<Rightarrow> Inl e | Inr mn \<Rightarrow>
        case py_max values of Inl e \<Rightarrow> Inl e | Inr mx \<Rightarrow>
        case mean_float values of Inl e \<Rightarrow> Inl e | Inr av \<Rightarrow>
        case median values of Inl e \<Rightarrow> Inl e | Inr md \<Rightarrow>
          Inr \<lparr>min_value = float_round (Fin mn) 2, max_value = float_round (Fin mx) 2,
               average = float_round av 2, median_value = float_round md 2\<rparr>)"

text \<open>
  Notions for the properties: the median in the words of the specification, which is the
  middle value of the sorted list or the average of the two middle values, rounded to 2
  decimal places.
\<close>

definition middle_average :: "rat list \<Rightarrow> rat" where
  "middle_average values =
     (let data = sort values; n = length data
      in if odd n then data ! (n div 2) else (data ! (n div 2 - 1) + data ! (n div 2)) / 2)"

definition spec_median :: "rat list \<Rightarrow> pyfloat" where
  "spec_median values = float_round (nearest_float (middle_average values)) 2"

section \<open>utils.calculate\_calories\_burned\<close>

text \<open>
  A Python string is a list of code points. \<open>str.lower\<close> follows the Unicode tables of
  the Python library; the model takes it as the parameter \<open>str_lower\<close>.
  \<open>str.replace(' ', '_')\<close> replaces every space. The keys of the table are ASCII
  strings, the values the floats that the literals of the source denote.
\<close>

definition replace_char :: "'a \<Rightarrow> 'a list \<Rightarrow> 'a list \<Rightarrow> 'a list" where
  "replace_char old new s = concat (map (\<lambda>c. if c = old then new else [c]) s)"

definition code_points :: "string \<Rightarrow> nat list" where
  "code_points s = map of_char s"

definition MET_VALUES :: "(nat list \<times> rat) list" where
  "MET_VALUES =
     [(code_points ''running'', float_literal (98 / 10)),
      (code_points ''jogging'', float_literal 7),
      (code_points ''walking'', float_literal (35 / 10)),
      (code_points ''cycling'', float_literal (75 / 10)),
      (code_points ''swimming'', float_literal 8),
      (code_points ''strength_training'', float_literal 6),
      (code_points ''weightlifting'', float_literal 6),
      (code_points ''yoga'', float_literal 3),
      (code_points ''pilates'', float_literal (35 / 10)),
      (code_points ''hiit'', float_literal 10),
      (code_points ''dancing'', float_literal 5),
      (code_points ''basketball'', float_literal (65 / 10)),
      (code_points ''soccer'', float_literal 7),
      (code_points ''tennis'', float_literal (73 / 10)),
      (code_points ''hiking'', float_literal 6),
      (code_points ''elliptical'', float_literal 7),
      (code_points ''rowing'', float_literal (85 / 10)),
      (code_points ''climbing'', float_literal 8)]"

definition calculate_calories_burned ::
  "(nat list \<Rightarrow> nat list) \<Rightarrow> nat list \<Rightarrow> int \<Rightarrow> rat \<Rightarrow> error + int" where
  "calculate_calories_burned str_lower workout_type duration_minutes weight_kg =
     (let met = (case map_of MET_VALUES
                        (replace_char (of_char CHR '' '') (code_points ''_'')
                           (str_lower workout_type)) of
                   Some m \<Rightarrow> m
                 | None \<Rightarrow> float_literal 5)
      in case int_truediv duration_minutes 60 of
           Inl e \<Rightarrow> Inl e
         | Inr hours \<Rightarrow>
             let calories = float_mul (float_mul (Fin met) (Fin weight_kg)) hours
             in float_round_int calories)"

section \<open>analytics.calculate\_workout\_stats\<close>

text \<open>
  A key that the source reads with \<open>r.get(key, default)\<close> is absent, present with the
  value \<open>None\<close>, or present with a value: the default stands in for an absent key only.
  A key read with \<open>r.get(key)\<close> gives \<open>None\<close> in the first two cases alike and is an
  option. The built-in \<open>sum\<close> adds from the left, starting at 0, and raises \<open>TypeError\<close>
  at a \<open>None\<close>. The durations and calories are integers and their sums are exact. The
  distances are floats; how \<open>sum\<close> adds floats depends on the version of Python (from
  the left, or with a compensation term), so the model takes the sum of a list of floats as
  the parameter \<open>float_sum\<close>.
\<close>

datatype 'a field = Absent | Null | Val 'a

definition get_default :: "'a field \<Rightarrow> 'a \<Rightarrow> 'a option" where
  "get_default f d = (case f of Absent \<Rightarrow> Some d | Null \<Rightarrow> None | Val v \<Rightarrow> Some v)"

fun py_sum :: "int option list \<Rightarrow> int \<Rightarrow> error + int" where
  "py_sum [] result = Inr result"
| "py_sum (None # xs) result = Inl TypeError"
| "py_sum (Some x # xs) result = py_sum xs (result + x)"

text \<open>The value of an optional number when it is truthy: there and not zero.\<close>

definition if_truthy :: "rat option \<Rightarrow> rat option" where
  "if_truthy v = (case v of None \<Rightarrow> None | Some x \<Rightarrow> if x \<noteq> 0 then Some x else None)"

record workout =
  duration :: "int field"
  caloriesBurned :: "int field"
  distance :: "rat option"

record workout_stats =
  total_workouts :: nat
  total_duration :: int
  total_calories :: int
  total_distance :: "pyfloat option"

definition calculate_workout_stats ::
  "(rat list \<Rightarrow> pyfloat) \<Rightarrow> workout list \<Rightarrow> error + workout_stats" where
  "calculate_workout_stats float_sum records =
     (if records = []
      then Inr \<lparr>total_workouts = 0, total_duration = 0, total_calories = 0,
                total_distance = None\<rparr>
      else
        case py_sum (map (\<lambda>r. get_default (duration r) 0) records) 0 of
          Inl e \<Rightarrow> Inl e
        | Inr duration_sum \<Rightarrow>
        case py_sum (map (\<lambda>r. get_default (caloriesBurned r) 0) records) 0 of
          Inl e \<Rightarrow> Inl e
        | Inr calories_sum \<Rightarrow>
            let distances = List.map_filter (\<lambda>r. if_truthy (distance r)) records;
                distance_sum = (if distances \<noteq> [] then Some (float_sum distances) else None)
            in Inr \<lparr>total_workouts = length records,
                    total_duration = duration_sum,
                    total_calories = calories_sum,
                    total_distance =
                      (case distance_sum of
                         Some t \<Rightarrow> if t \<noteq> Fin 0 then Some (float_round t 2) else None
                       | None \<Rightarrow> None)\<rparr>)"

text \<open>
  Notions for the properties: the value a key stands for in a sum, the distances that
  are present, and what the properties ask of the library's \<open>sum\<close>: the sum of one or
  more positive floats is not zero.
\<close>

definition field_or :: "'a \<Rightarrow> 'a field \<Rightarrow> 'a" where
  "field_or d f = (case f of Val v \<Rightarrow> v | _ \<Rightarrow> d)"

definition present_distances :: "workout list \<Rightarrow> rat list" where
  "present_distances records = List.map_filter distance records"

definition nonzero_on_positive :: "(rat list \<Rightarrow> pyfloat) \<Rightarrow> bool" where
  "nonzero_on_positive float_sum =
     (\<forall>ds. ds \<noteq> [] \<and> (\<forall>d\<in>set ds. positive_float d) \<longrightarrow> float_sum ds \<noteq> Fin 0)"

section \<open>analytics.calculate\_body\_metrics\_stats\<close>

text \<open>
  \<open>sorted(records, key=..., reverse=True)\<close> reverses the list, sorts it stably in
  ascending order of the key and reverses the result. Sorting fewer than two records
  compares nothing; with two or more, a key that is \<open>None\<close> cannot be compared with a
  string and raises \<open>TypeError\<close>. The list \<open>body_fats\<close> of the source is computed and
  never read; it is left out.
\<close>

record body_metric =
  weight :: "rat option"
  bodyFatPercentage :: "rat option"
  bmi :: "rat option"
  recordedAt :: "string field"

record body_metrics_stats =
  latest_weight :: "rat option"
  average_weight :: "pyfloat option"
  weight_change :: "pyfloat option"
  latest_bmi :: "rat option"
  latest_body_fat :: "rat option"

definition recorded_key :: "body_metric \<Rightarrow> string" where
  "recorded_key r = field_or [] (recordedAt r)"

definition sorted_records_of :: "body_metric list \<Rightarrow> error + body_metric list" where
  "sorted_records_of records =
     (if length records < 2 then Inr records
      else if list_ex (\<lambda>r. get_default (recordedAt r) [] = None) records then Inl TypeError
      else Inr (rev (sort_key recorded_key (rev records))))"

definition calculate_body_metrics_stats :: "body_metric list \<Rightarrow> error + body_metrics_stats" where
  "calculate_body_metrics_stats records =
     (if records = []
      then Inr \<lparr>latest_weight = None, average_weight = None, weight_change = None,
                latest_bmi = None, latest_body_fat = None\<rparr>
      else
        case sorted_records_of records of
          Inl e \<Rightarrow> Inl e
        | Inr sorted_records \<Rightarrow>
            let latest = (case sorted_records of
                            [] \<Rightarrow> \<lparr>weight = None, bodyFatPercentage = None, bmi = None,
                                    recordedAt = Absent\<rparr>
                          | r # rs \<Rightarrow> r);
                weights = List.map_filter (\<lambda>r. if_truthy (weight r)) records
            in
              case (if 2 \<le> length sorted_records
                       \<and> if_truthy (weight (hd sorted_records)) \<noteq> None
                       \<and> if_truthy (weight (last sorted_records)) \<noteq> None
                    then (case calculate_change (weight (last sorted_records))
                                 (weight (hd sorted_records)) of
                            Inl e \<Rightarrow> Inl e
                          | Inr c \<Rightarrow> Inr (Some (absolute c)))
                    else Inr None) of
                Inl e \<Rightarrow> Inl e
              | Inr change_value \<Rightarrow>
              case (if weights \<noteq> []
                    then (case mean_float weights of
                            Inl e \<Rightarrow> Inl e
                          | Inr m \<Rightarrow> Inr (Some (float_round m 1)))
                    else Inr None) of
                Inl e \<Rightarrow> Inl e
              | Inr average_value \<Rightarrow>
                  Inr \<lparr>latest_weight = weight latest,
                       average_weight = average_value,
                       weight_change = change_value,
                       latest_bmi = bmi latest,
                       latest_body_fat = bodyFatPercentage latest\<rparr>)"

text \<open>
  Notions for the properties. The latest record is the first record of the input among
  those with the greatest \<open>recordedAt\<close>, the oldest the last record of the input among
  those with the least.
\<close>

definition latest_record :: "body_metric list \<Rightarrow> body_metric" where
  "latest_record records =
     hd (filter (\<lambda>r. recorded_key r = Max (recorded_key ` set records)) records)"

definition oldest_record :: "body_metric list \<Rightarrow> body_metric" where
  "oldest_record records =
     last (filter (\<lambda>r. recorded_key r = Min (recorded_key ` set records)) records)"

section \<open>Calendar dates and \<open>strftime\<close>\<close>

text \<open>
  \<open>aggregate_by_period\<close> formats a \<open>datetime\<close> with \<open>%Y\<close>, \<open>%m\<close>, \<open>%d\<close> and \<open>%W\<close> only,
  which read its calendar date and nothing else, so a \<open>datetime\<close> is modelled by its
  date. The day number, the weekday (Monday is 0) and the day of the year are computed
  as the \<open>datetime\<close> module computes them; \<open>%W\<close> is the C library's: the week of the year
  with Monday as the first day of the week, the days before the first Monday being in
  week 0. Each field is printed in decimal, zero padded to its width (4 for \<open>%Y\<close>, 2 for
  the others), as the library documents; some C libraries print a year below 1000 with
  fewer digits, so the properties that speak of the text of a key are stated for years
  from 1000. A \<open>datetime\<close> always holds a date of the calendar (\<open>valid_date\<close>): the
  month tables are read for the months 1 to 12 only.
\<close>

record date =
  year :: nat
  month :: nat
  day :: nat

definition is_leap :: "nat \<Rightarrow> bool" where
  "is_leap y = (y mod 4 = 0 \<and> (y mod 100 \<noteq> 0 \<or> y mod 400 = 0))"

definition days_in_month :: "nat \<Rightarrow> nat \<Rightarrow> nat" where
  "days_in_month y m =
     (if m = 2 \<and> is_leap y then 29
      else [31, 28, 31, 30, 31, 30, 31, 31, 30, 31, 30, 31] ! (m - 1))"

definition days_before_year :: "nat \<Rightarrow> nat" where
  "days_before_year y0 =
     (let y = y0 - 1 in y * 365 + y div 4 - y div 100 + y div 400)"

definition days_before_month :: "nat \<Rightarrow> nat \<Rightarrow> nat" where
  "days_before_month y m =
     [0, 31, 59, 90, 120, 151, 181, 212, 243, 273, 304, 334] ! (m - 1)
       + (if 2 < m \<and> is_leap y then 1 else 0)"

definition valid_date :: "date \<Rightarrow> bool" where
  "valid_date d =
     (1 \<le> year d \<and> year d \<le> 9999 \<and> 1 \<le> month d \<and> month d \<le> 12
      \<and> 1 \<le> day d \<and> day d \<le> days_in_month (year d) (month d))"

definition ymd2ord :: "nat \<Rightarrow> nat \<Rightarrow> nat \<Rightarrow> nat" where
  "ymd2ord y m d = days_before_year y + days_before_month y m + d"

definition toordinal :: "date \<Rightarrow> nat" where
  "toordinal d = ymd2ord (year d) (month d) (day d)"

definition weekday :: "date \<Rightarrow> nat" where
  "weekday d = (toordinal d + 6) mod 7"

definition yday :: "date \<Rightarrow> nat" where
  "yday d = days_before_month (year d) (month d) + day d"

definition week_of_year_monday :: "date \<Rightarrow> nat" where
  "week_of_year_monday d = (yday d - 1 + 7 - weekday d) div 7"

definition digit_char :: "nat \<Rightarrow> char" where
  "digit_char n = ''0123456789'' ! n"

fun zero_padded :: "nat \<Rightarrow> nat \<Rightarrow> string" where
  "zero_padded 0 n = []"
| "zero_padded (Suc w) n = zero_padded w (n div 10) @ [digit_char (n mod 10)]"

definition strftime_day :: "date \<Rightarrow> string" where
  "strftime_day d =
     zero_padded 4 (year d) @ ''-'' @ zero_padded 2 (month d) @ ''-'' @ zero_padded 2 (day d)"

definition strftime_week :: "date \<Rightarrow> string" where
  "strftime_week d = zero_padded 4 (year d) @ ''-W'' @ zero_padded 2 (week_of_year_monday d)"

definition strftime_month :: "date \<Rightarrow> string" where
  "strftime_month d = zero_padded 4 (year d) @ ''-'' @ zero_padded 2 (month d)"

section \<open>analytics.aggregate\_by\_period\<close>

text \<open>
  A record is a dictionary from field names to values; a value is \<open>None\<close>, a number, a
  string or a \<open>datetime\<close>. A dictionary is an association list in insertion order with
  one entry for each key.
\<close>

datatype pyval = PNone | PNum rat | PStr string | PDate date

type_synonym pydict = "(string \<times> pyval) list"

definition dict_get :: "pydict \<Rightarrow> string \<Rightarrow> pyval" where
  "dict_get d k = (case map_of d k of None \<Rightarrow> PNone | Some v \<Rightarrow> v)"

fun dict_set :: "'k \<Rightarrow> 'v \<Rightarrow> ('k \<times> 'v) list \<Rightarrow> ('k \<times> 'v) list" where
  "dict_set k v [] = [(k, v)]"
| "dict_set k v ((a, b) # ps) = (if a = k then (k, v) # ps else (a, b) # dict_set k v ps)"

fun truthy :: "pyval \<Rightarrow> bool" where
  "truthy PNone = False"
| "truthy (PNum x) = (x \<noteq> 0)"
| "truthy (PStr s) = (s \<noteq> [])"
| "truthy (PDate d) = True"

text \<open>
  \<open>statistics.mean\<close> on a list of values: a value that is not a number raises
  \<open>TypeError\<close>.
\<close>

fun numbers :: "pyval list \<Rightarrow> rat list option" where
  "numbers [] = Some []"
| "numbers (PNum x # vs) = (case numbers vs of None \<Rightarrow> None | Some xs \<Rightarrow> Some (x # xs))"
| "numbers (v # vs) = None"

definition mean_values :: "pyval list \<Rightarrow> error + rat" where
  "mean_values vs = (case numbers vs of None \<Rightarrow> Inl TypeError | Some xs \<Rightarrow> mean xs)"

record data_point =
  dp_period :: string
  dp_values :: "pyval list"
  dp_count :: nat

definition period_key :: "string \<Rightarrow> date \<Rightarrow> string" where
  "period_key period d =
     (if period = ''day'' then strftime_day d
      else if period = ''week'' then strftime_week d
      else if period = ''month'' then strftime_month d
      else strftime_day d)"

text \<open>
  \<open>datetime.fromisoformat\<close> belongs to the Python library, not to the repository; the
  model takes it as the parameter \<open>fromisoformat\<close>, a function from a string to a date or
  \<open>ValueError\<close>. A truthy date value that is neither a string nor a \<open>datetime\<close> has no
  \<open>strftime\<close>.
\<close>

definition parse_date :: "(string \<Rightarrow> error + date) \<Rightarrow> pyval \<Rightarrow> error + date" where
  "parse_date fromisoformat date_str =
     (case date_str of
        PStr s \<Rightarrow> fromisoformat (replace_char CHR ''Z'' ''+00:00'' s)
      | PDate d \<Rightarrow> Inr d
      | _ \<Rightarrow> Inl AttributeError)"

definition aggregate_record ::
  "(string \<Rightarrow> error + date) \<Rightarrow> string \<Rightarrow> string \<Rightarrow> string \<Rightarrow> pydict
     \<Rightarrow> (string \<times> data_point) list \<Rightarrow> error + (string \<times> data_point) list"
where
  "aggregate_record fromisoformat date_field value_field period record aggregated =
     (let date_str = dict_get record date_field;
          value = dict_get record value_field
      in if \<not> truthy date_str \<or> value = PNone then Inr aggregated
         else
           case parse_date fromisoformat date_str of
             Inl e \<Rightarrow> Inl e
           | Inr d \<Rightarrow>
               let key = period_key period d;
                   aggregated1 =
                     (if map_of aggregated key = None
                      then dict_set key \<lparr>dp_period = key, dp_values = [], dp_count = 0\<rparr> aggregated
                      else aggregated)
               in (case map_of aggregated1 key of
                     None \<Rightarrow> Inl KeyError
                   | Some dp \<Rightarrow>
                       Inr (dict_set key
                              (dp\<lparr>dp_values := dp_values dp @ [value],
                                  dp_count := dp_count dp + 1\<rparr>)
                              aggregated1)))"

fun aggregate_records ::
  "(string \<Rightarrow> error + date) \<Rightarrow> string \<Rightarrow> string \<Rightarrow> string \<Rightarrow> pydict list
     \<Rightarrow> (string \<times> data_point) list \<Rightarrow> error + (string \<times> data_point) list"
where
  "aggregate_records fromisoformat date_field value_field period [] aggregated = Inr aggregated"
| "aggregate_records fromisoformat date_field value_field period (record # data) aggregated =
     (case aggregate_record fromisoformat date_field value_field period record aggregated of
        Inl e \<Rightarrow> Inl e
      | Inr aggregated' \<Rightarrow>
          aggregate_records fromisoformat date_field value_field period data aggregated')"

fun calculate_averages :: "(string \<times> data_point) list \<Rightarrow> string list \<Rightarrow> error + pydict list" where
  "calculate_averages aggregated [] = Inr []"
| "calculate_averages aggregated (key # keys) =
     (case map_of aggregated key of
        None \<Rightarrow> Inl KeyError
      | Some data_point \<Rightarrow>
          (case mean_values (dp_values data_point) of
             Inl e \<Rightarrow> Inl e
           | Inr m \<Rightarrow>
               (case calculate_averages aggregated keys of
                  Inl e \<Rightarrow> Inl e
                | Inr result \<Rightarrow>
                    Inr ([(''period'', PStr (dp_period data_point)),
                          (''average'', PNum (py_round m 2)),
                          (''count'', PNum (of_nat (dp_count data_point)))] # result))))"

definition aggregate_by_period ::
  "(string \<Rightarrow> error + date) \<Rightarrow> pydict list \<Rightarrow> string \<Rightarrow> string \<Rightarrow> string \<Rightarrow> error + pydict list"
where
  "aggregate_by_period fromisoformat data date_field value_field period =
     (if data = [] then Inr []
      else
        case aggregate_records fromisoformat date_field value_field period data [] of
          Inl e \<Rightarrow> Inl e
        | Inr aggregated \<Rightarrow> calculate_averages aggregated (sort (map fst aggregated)))"

text \<open>
  A sample of the library parser, used to run the model: it reads a string of the form
  \<open>YYYY-MM-DD\<close> that names a date of the calendar, as every version of the library does,
  and refuses every other string.
\<close>

definition digit_value :: "char \<Rightarrow> nat option" where
  "digit_value c = map_of (zip ''0123456789'' [0, 1, 2, 3, 4, 5, 6, 7, 8, 9]) c"

fun decimal_value :: "string \<Rightarrow> nat option" where
  "decimal_value [] = Some 0"
| "decimal_value (c # cs) =
     (case digit_value c of
        None \<Rightarrow> None
      | Some v \<Rightarrow> (case decimal_value cs of None \<Rightarrow> None | Some r \<Rightarrow> Some (v * 10 ^ length cs + r)))"

definition fromisoformat_date_only :: "string \<Rightarrow> error + date" where
  "fromisoformat_date_only s =
     (if length s \<noteq> 10 \<or> s ! 4 \<noteq> CHR ''-'' \<or> s ! 7 \<noteq> CHR ''-'' then Inl ValueError
      else
        case (decimal_value (take 4 s), decimal_value (take 2 (drop 5 s)),
              decimal_value (drop 8 s)) of
          (Some y, Some m, Some d) \<Rightarrow>
            if valid_date \<lparr>year = y, month = m, day = d\<rparr>
            then Inr \<lparr>year = y, month = m, day = d\<rparr>
            else Inl ValueError
        | _ \<Rightarrow> Inl ValueError)"

section \<open>Notions used to state the properties of \<open>aggregate_by_period\<close>\<close>

text \<open>
  A record is kept by the loop when its date value is truthy and its value is not \<open>None\<close>;
  \<open>entries\<close> lists, in input order, the bucket key and the value of every kept record
  whose date can be read. \<open>bucket_of\<close> is the output dictionary of one key.
  \<open>both_present\<close> is the reading of the specification: both fields are there.
\<close>

definition kept :: "string \<Rightarrow> string \<Rightarrow> pydict \<Rightarrow> bool" where
  "kept date_field value_field r = (truthy (dict_get r date_field) \<and> dict_get r value_field \<noteq> PNone)"

definition entry_of ::
  "(string \<Rightarrow> error + date) \<Rightarrow> string \<Rightarrow> string \<Rightarrow> string \<Rightarrow> pydict \<Rightarrow> (string \<times> pyval) list" where
  "entry_of P date_field value_field period r =
     (if kept date_field value_field r
      then (case parse_date P (dict_get r date_field) of
              Inl e \<Rightarrow> []
            | Inr d \<Rightarrow> [(period_key period d, dict_get r value_field)])
      else [])"

definition entries ::
  "(string \<Rightarrow> error + date) \<Rightarrow> string \<Rightarrow> string \<Rightarrow> string \<Rightarrow> pydict list \<Rightarrow> (string \<times> pyval) list" where
  "entries P date_field value_field period data =
     concat (map (entry_of P date_field value_field period) data)"

definition key_values :: "(string \<times> pyval) list \<Rightarrow> string \<Rightarrow> pyval list" where
  "key_values kv k = map snd (filter (\<lambda>e. fst e = k) kv)"

definition agg_map :: "(string \<times> pyval) list \<Rightarrow> string \<Rightarrow> data_point option" where
  "agg_map kv k =
     (if k \<in> fst ` set kv
      then Some \<lparr>dp_period = k, dp_values = key_values kv k, dp_count = length (key_values kv k)\<rparr>
      else None)"

fun is_num :: "pyval \<Rightarrow> bool" where
  "is_num (PNum x) = True"
| "is_num v = False"

fun num_of :: "pyval \<Rightarrow> rat" where
  "num_of (PNum x) = x"
| "num_of v = 0"

definition parses :: "(string \<Rightarrow> error + date) \<Rightarrow> string \<Rightarrow> pydict \<Rightarrow> bool" where
  "parses P date_field r = (case parse_date P (dict_get r date_field) of Inl e \<Rightarrow> False | Inr d \<Rightarrow> True)"

definition bucket_of :: "(string \<times> pyval) list \<Rightarrow> string \<Rightarrow> pydict" where
  "bucket_of kv k =
     [(''period'', PStr k),
      (''average'', PNum (py_round (sum_list (map num_of (key_values kv k))
                                     / of_nat (length (key_values kv k))) 2)),
      (''count'', PNum (of_nat (length (key_values kv k))))]"


definition bucket_period :: "pydict \<Rightarrow> string" where
  "bucket_period b = (case dict_get b ''period'' of PStr s \<Rightarrow> s | _ \<Rightarrow> [])"


text \<open>The rounded mean of the values of one key: the average of its bucket.\<close>

definition bucket_average :: "(string \<times> pyval) list \<Rightarrow> string \<Rightarrow> rat" where
  "bucket_average kv k =
     py_round (sum_list (map num_of (key_values kv k)) / of_nat (length (key_values kv k))) 2"

section \<open>Sample data\<close>

text \<open>
  Six records: three with a date and a value (two of them on the same day), one with an
  empty date string, one without a date and one without a value; and the buckets that
  aggregating them by day gives.
\<close>

definition example_records :: "pydict list" where
  "example_records =
     [[(''date'', PStr ''2024-01-15''), (''value'', PNum 1)],
      [(''date'', PStr ''2024-01-14''), (''value'', PNum 4)],
      [(''date'', PStr ''2024-01-15''), (''value'', PNum 2)],
      [(''date'', PStr ''''), (''value'', PNum 9)],
      [(''value'', PNum 7)],
      [(''date'', PDate \<lparr>year = 2024, month = 1, day = 16\<rparr>)]]"

definition example_buckets :: "pydict list" where
  "example_buckets =
     [[(''period'', PStr ''2024-01-14''), (''average'', PNum 4), (''count'', PNum 1)],
      [(''period'', PStr ''2024-01-15''), (''average'', PNum (3 / 2)), (''count'', PNum 2)]]"

text \<open>
  Samples of the three library functions that the model takes as parameters, used to run
  it. \<open>correctly_rounded_square\<close> is a \<open>pow\<close> that returns the float nearest to the exact
  square. \<open>left_sum\<close> adds floats from the left, starting at 0, as \<open>sum\<close> does up to
  Python 3.11. \<open>ascii_lower\<close> lowercases the letters A to Z and leaves every other code
  point as it is, as \<open>str.lower\<close> does on ASCII strings.
\<close>

definition correctly_rounded_square :: "pyfloat \<Rightarrow> error + pyfloat" where
  "correctly_rounded_square a =
     (case a of
        Fin x \<Rightarrow> (case nearest_float (x * x) of Fin s \<Rightarrow> Inr (Fin s) | _ \<Rightarrow> Inl OverflowError)
      | NaN \<Rightarrow> Inr NaN
      | _ \<Rightarrow> Inr PInf)"

definition left_sum :: "rat list \<Rightarrow> pyfloat" where
  "left_sum xs = fold (\<lambda>x result. float_add result (Fin x)) xs (Fin 0)"

definition ascii_lower :: "nat list \<Rightarrow> nat list" where
  "ascii_lower s = map (\<lambda>c. if 65 \<le> c \<and> c \<le> 90 then c + 32 else c) s"

text \<open>
  Workouts: one without a distance; two with the distances 0.005 and 1.0, one of them
  without \<open>caloriesBurned\<close>. Body metrics: three records, the middle one without a
  weight; and a single record.
\<close>

definition workout_without_distance :: "workout list" where
  "workout_without_distance =
     [\<lparr>duration = Val 1800, caloriesBurned = Val 200, distance = None\<rparr>]"

definition example_workouts :: "workout list" where
  "example_workouts =
     [\<lparr>duration = Val 1800, caloriesBurned = Absent, distance = Some (float_literal (5 / 1000))\<rparr>,
      \<lparr>duration = Val 600, caloriesBurned = Val 90, distance = Some 1\<rparr>]"

definition example_metrics :: "body_metric list" where
  "example_metrics =
     [\<lparr>weight = Some 80, bodyFatPercentage = None, bmi = Some 25,
       recordedAt = Val ''2024-01-01''\<rparr>,
      \<lparr>weight = Some (785 / 10), bodyFatPercentage = Some 20, bmi = None,
       recordedAt = Val ''2024-02-01''\<rparr>,
      \<lparr>weight = None, bodyFatPercentage = Some 21, bmi = None,
       recordedAt = Val ''2024-01-15''\<rparr>]"

definition single_metric :: "body_metric list" where
  "single_metric =
     [\<lparr>weight = Some 80, bodyFatPercentage = None, bmi = Some 25,
       recordedAt = Val ''2024-01-01''\<rparr>]"

section \<open>Week conventions\<close>

text \<open>
  \<open>mondays_from_new_year\<close> counts the Mondays from 1 January of the date's year up to and
  including the date. \<open>sundays_after_new_year\<close> is the week number in the words of the
  specification: week 00 starts on 1 January and a new week begins on every Sunday after
  it; \<open>week_of_year_sunday\<close> is the C library's \<open>%U\<close>, the other Sunday-based
  convention. \<open>spec_week_key\<close> is the key the specification describes.
\<close>

definition new_year :: "date \<Rightarrow> date" where
  "new_year d = \<lparr>year = year d, month = 1, day = 1\<rparr>"

definition mondays_from_new_year :: "date \<Rightarrow> nat" where
  "mondays_from_new_year d =
     length (filter (\<lambda>j. (toordinal (new_year d) + j + 6) mod 7 = 0) [0..<yday d])"

definition sundays_after_new_year :: "date \<Rightarrow> nat" where
  "sundays_after_new_year d =
     length (filter (\<lambda>j. (toordinal (new_year d) + j + 6) mod 7 = 6) [1..<yday d])"

definition week_of_year_sunday :: "date \<Rightarrow> nat" where
  "week_of_year_sunday d = (yday d - 1 + 7 - (weekday d + 1) mod 7) div 7"

definition spec_week_key :: "date \<Rightarrow> string" where
  "spec_week_key d = zero_padded 4 (year d) @ ''-W'' @ zero_padded 2 (sundays_after_new_year d)"

section \<open>Properties\<close>

subsection \<open>The built-in extremes\<close>

lemma fold_min_Min:
  "fold (\<lambda>item minitem. if item < minitem then item else minitem) ys (m::rat)
     = Min (insert m (set ys))"
proof (induction ys arbitrary: m)
  case Nil
  then show ?case by simp
next
  case (Cons y ys)
  have "Min (insert (if y < m then y else m) (set ys)) = Min (insert m (insert y (set ys)))"
    by (cases "set ys = {}") (auto simp: min_def)
  with Cons show ?case by simp
qed

lemma fold_max_Max:
  "fold (\<lambda>item maxitem. if maxitem < item then item else maxitem) ys (m::rat)
     = Max (insert m (set ys))"
proof (induction ys arbitrary: m)
  case Nil
  then show ?case by simp
next
  case (Cons y ys)
  have "Max (insert (if m < y then y else m) (set ys)) = Max (insert m (insert y (set ys)))"
    by (cases "set ys = {}") (auto simp: max_def)
  with Cons show ?case by simp
qed

lemma py_min_Min: "xs \<noteq> [] \<Longrightarrow> py_min xs = Inr (Min (set xs))"
  by (cases xs) (simp_all add: fold_min_Min)

lemma py_max_Max: "xs \<noteq> [] \<Longrightarrow> py_max xs = Inr (Max (set xs))"
  by (cases xs) (simp_all add: fold_max_Max)

subsection \<open>The aggregation loop\<close>

lemma map_of_dict_set: "map_of (dict_set k v ps) = (map_of ps)(k \<mapsto> v)"
  by (induction ps) (auto simp: fun_eq_iff)

lemma keys_dict_set: "fst ` set (dict_set k v ps) = insert k (fst ` set ps)"
  by (induction ps) force+

lemma distinct_dict_set: "distinct (map fst ps) \<Longrightarrow> distinct (map fst (dict_set k v ps))"
  by (induction ps) (auto simp: keys_dict_set)

lemma key_values_snoc:
  "key_values (kv @ [(k, v)]) k' = (if k' = k then key_values kv k' @ [v] else key_values kv k')"
  by (simp add: key_values_def)

lemma key_values_empty: "k \<notin> fst ` set kv \<Longrightarrow> key_values kv k = []"
  by (auto simp: key_values_def filter_empty_conv)

lemma agg_map_snoc:
  "agg_map (kv @ [(k, v)]) =
     (agg_map kv)(k \<mapsto> \<lparr>dp_period = k, dp_values = key_values kv k @ [v],
                        dp_count = length (key_values kv k) + 1\<rparr>)"
  by (auto simp: agg_map_def fun_eq_iff key_values_snoc)

lemma aggregate_record_skip:
  "\<not> kept df vf r \<Longrightarrow> aggregate_record P df vf period r acc = Inr acc"
  by (auto simp: aggregate_record_def kept_def Let_def)

lemma aggregate_record_error:
  "kept df vf r \<Longrightarrow> parse_date P (dict_get r df) = Inl e \<Longrightarrow>
   aggregate_record P df vf period r acc = Inl e"
  by (auto simp: aggregate_record_def kept_def Let_def)

lemma aggregate_record_keep:
  assumes "kept df vf r" and "parse_date P (dict_get r df) = Inr d"
    and "map_of acc = agg_map kv" and "distinct (map fst acc)"
  shows "\<exists>acc'. aggregate_record P df vf period r acc = Inr acc'
           \<and> map_of acc' = agg_map (kv @ [(period_key period d, dict_get r vf)])
           \<and> distinct (map fst acc')"
proof -
  let ?k = "period_key period d"
  let ?init = "\<lparr>dp_period = ?k, dp_values = [], dp_count = 0\<rparr>"
  let ?acc1 = "if map_of acc ?k = None then dict_set ?k ?init acc else acc"
  let ?dp = "\<lparr>dp_period = ?k, dp_values = key_values kv ?k, dp_count = length (key_values kv ?k)\<rparr>"
  have m1: "map_of ?acc1 ?k = Some ?dp"
    using assms(3) by (auto simp: map_of_dict_set agg_map_def key_values_empty)
  have d1: "distinct (map fst ?acc1)"
    using assms(4) by (simp add: distinct_dict_set)
  have m1': "map_of ?acc1 = (agg_map kv)(?k \<mapsto> ?dp)"
    using assms(3) m1 by (auto simp: map_of_dict_set fun_eq_iff)
  have "aggregate_record P df vf period r acc =
          Inr (dict_set ?k (?dp\<lparr>dp_values := dp_values ?dp @ [dict_get r vf],
                                dp_count := dp_count ?dp + 1\<rparr>) ?acc1)"
    using assms(1,2) m1 by (simp add: aggregate_record_def kept_def Let_def)
  moreover have "map_of (dict_set ?k (?dp\<lparr>dp_values := dp_values ?dp @ [dict_get r vf],
                                dp_count := dp_count ?dp + 1\<rparr>) ?acc1)
                 = agg_map (kv @ [(?k, dict_get r vf)])"
    by (simp only: map_of_dict_set m1' agg_map_snoc) (simp add: fun_eq_iff)
  moreover have "distinct (map fst (dict_set ?k (?dp\<lparr>dp_values := dp_values ?dp @ [dict_get r vf],
                                dp_count := dp_count ?dp + 1\<rparr>) ?acc1))"
    using d1 by (rule distinct_dict_set)
  ultimately show ?thesis by simp
qed

lemma entries_Cons:
  "entries P df vf period (r # data) = entry_of P df vf period r @ entries P df vf period data"
  by (simp add: entries_def)

lemma aggregate_records_char:
  assumes "map_of acc = agg_map kv" and "distinct (map fst acc)"
    and "\<forall>r\<in>set data. kept df vf r \<longrightarrow> parses P df r"
  shows "\<exists>acc'. aggregate_records P df vf period data acc = Inr acc'
           \<and> map_of acc' = agg_map (kv @ entries P df vf period data)
           \<and> distinct (map fst acc')"
  using assms
proof (induction data arbitrary: acc kv)
  case Nil
  then show ?case by (simp add: entries_def)
next
  case (Cons r data)
  show ?case
  proof (cases "kept df vf r")
    case False
    then have "entry_of P df vf period r = []"
      by (simp add: entry_of_def)
    moreover have "aggregate_record P df vf period r acc = Inr acc"
      using False by (rule aggregate_record_skip)
    ultimately show ?thesis
      using Cons.IH [of acc kv] Cons.prems by (simp add: entries_Cons)
  next
    case True
    then obtain d where d: "parse_date P (dict_get r df) = Inr d"
      using Cons.prems(3) by (auto simp: parses_def split: sum.splits)
    from aggregate_record_keep [OF True d Cons.prems(1,2), of period]
    obtain acc1 where a1: "aggregate_record P df vf period r acc = Inr acc1"
      and m1: "map_of acc1 = agg_map (kv @ [(period_key period d, dict_get r vf)])"
      and d1: "distinct (map fst acc1)"
      by blast
    have e: "entry_of P df vf period r = [(period_key period d, dict_get r vf)]"
      using True d by (simp add: entry_of_def)
    from Cons.IH [OF m1 d1] Cons.prems(3)
    show ?thesis
      by (simp add: a1 e entries_Cons)
  qed
qed

lemma aggregate_records_parses:
  "aggregate_records P df vf period data acc = Inr acc' \<Longrightarrow>
   \<forall>r\<in>set data. kept df vf r \<longrightarrow> parses P df r"
proof (induction data arbitrary: acc)
  case Nil
  then show ?case by simp
next
  case (Cons r data)
  from Cons.prems obtain acc1 where a1: "aggregate_record P df vf period r acc = Inr acc1"
    and rest: "aggregate_records P df vf period data acc1 = Inr acc'"
    by (auto split: sum.splits)
  have "kept df vf r \<longrightarrow> parses P df r"
    using a1 aggregate_record_error [of df vf r P _ period acc]
    by (cases "parse_date P (dict_get r df)") (auto simp: parses_def)
  with Cons.IH [OF rest] show ?case by simp
qed

lemma numbers_Some: "\<forall>v\<in>set vs. is_num v \<Longrightarrow> numbers vs = Some (map num_of vs)"
proof (induction vs)
  case Nil
  then show ?case by simp
next
  case (Cons v vs)
  then show ?case by (cases v) simp_all
qed

lemma numbers_is_num: "numbers vs = Some xs \<Longrightarrow> \<forall>v\<in>set vs. is_num v"
proof (induction vs arbitrary: xs)
  case Nil
  then show ?case by simp
next
  case (Cons v vs)
  then show ?case by (cases v) (auto split: option.splits)
qed

lemma key_values_nonempty: "k \<in> fst ` set kv \<Longrightarrow> key_values kv k \<noteq> []"
  by (auto simp: key_values_def filter_empty_conv)

lemma set_key_values: "set (key_values kv k) \<subseteq> snd ` set kv"
  by (auto simp: key_values_def)

lemma mean_values_numbers:
  "\<forall>v\<in>set vs. is_num v \<Longrightarrow> vs \<noteq> [] \<Longrightarrow>
   mean_values vs = Inr (sum_list (map num_of vs) / of_nat (length vs))"
  by (simp add: mean_values_def numbers_Some mean_def Let_def)

lemma mean_values_is_num: "mean_values vs = Inr m \<Longrightarrow> \<forall>v\<in>set vs. is_num v"
  using numbers_is_num by (auto simp: mean_values_def split: option.splits)

lemma calculate_averages_char:
  assumes "map_of acc = agg_map kv" and "set keys \<subseteq> fst ` set kv"
    and "\<forall>e\<in>set kv. is_num (snd e)"
  shows "calculate_averages acc keys = Inr (map (bucket_of kv) keys)"
  using assms(2)
proof (induction keys)
  case Nil
  then show ?case by simp
next
  case (Cons k keys)
  then have k: "k \<in> fst ` set kv" by simp
  have nums: "\<forall>v\<in>set (key_values kv k). is_num v"
    using assms(3) set_key_values [of kv k] by auto
  have "mean_values (key_values kv k) =
          Inr (sum_list (map num_of (key_values kv k)) / of_nat (length (key_values kv k)))"
    using nums key_values_nonempty [OF k] by (rule mean_values_numbers)
  then show ?case
    using Cons k assms(1) by (simp add: agg_map_def bucket_of_def)
qed

lemma calculate_averages_is_num:
  assumes "map_of acc = agg_map kv"
  shows "calculate_averages acc keys = Inr bs \<Longrightarrow> set keys \<subseteq> fst ` set kv \<Longrightarrow>
         \<forall>k\<in>set keys. \<forall>v\<in>set (key_values kv k). is_num v"
proof (induction keys arbitrary: bs)
  case Nil
  then show ?case by simp
next
  case (Cons k keys)
  then have k: "k \<in> fst ` set kv" by simp
  from Cons.prems(1) k assms obtain m bs' where
    m: "mean_values (key_values kv k) = Inr m" and
    rest: "calculate_averages acc keys = Inr bs'"
    by (auto simp: agg_map_def split: sum.splits)
  from Cons.IH [OF rest] Cons.prems(2) mean_values_is_num [OF m]
  show ?case by simp
qed

lemma agg_map_empty: "agg_map [] = Map.empty"
  by (simp add: agg_map_def fun_eq_iff)

lemma keys_of_agg_map:
  assumes "map_of acc = agg_map kv"
  shows "set (map fst acc) = fst ` set kv"
proof -
  have "fst ` set acc = dom (map_of acc)"
    by (simp add: dom_map_of_conv_image_fst)
  also have "\<dots> = fst ` set kv"
    unfolding assms by (auto simp: agg_map_def dom_def)
  finally show ?thesis by simp
qed

lemma sorted_keys_of_agg_map:
  assumes "map_of acc = agg_map kv" and "distinct (map fst acc)"
  shows "sort (map fst acc) = sorted_list_of_set (fst ` set kv)"
proof -
  have "sorted_list_of_set (set (map fst acc)) = sort (remdups (map fst acc))"
    by (rule sorted_list_of_set_sort_remdups)
  then show ?thesis
    using assms(2) keys_of_agg_map [OF assms(1)] by (simp add: distinct_remdups_id)
qed

lemma entry_in_entries:
  "kept df vf r \<Longrightarrow> parse_date P (dict_get r df) = Inr d \<Longrightarrow> r \<in> set data \<Longrightarrow>
   (period_key period d, dict_get r vf) \<in> set (entries P df vf period data)"
  by (auto simp: entries_def entry_of_def intro!: bexI [of _ r])

lemma entries_values:
  "e \<in> set (entries P df vf period data) \<Longrightarrow>
   \<exists>r\<in>set data. kept df vf r \<and> snd e = dict_get r vf"
  by (auto simp: entries_def entry_of_def split: if_splits sum.splits)

lemma aggregate_by_period_char:
  assumes "\<forall>r\<in>set data. kept df vf r \<longrightarrow> parses P df r \<and> is_num (dict_get r vf)"
  shows "aggregate_by_period P data df vf period =
           Inr (map (bucket_of (entries P df vf period data))
                  (sorted_list_of_set (fst ` set (entries P df vf period data))))"
proof -
  let ?kv = "entries P df vf period data"
  have p: "\<forall>r\<in>set data. kept df vf r \<longrightarrow> parses P df r"
    using assms by blast
  from aggregate_records_char [of "[]" "[]" data df vf P period] p
  obtain acc where a: "aggregate_records P df vf period data [] = Inr acc"
    and m: "map_of acc = agg_map ?kv" and d: "distinct (map fst acc)"
    by (auto simp: agg_map_empty)
  have nums: "\<forall>e\<in>set ?kv. is_num (snd e)"
    using assms entries_values [of _ P df vf period data] by fastforce
  have keys: "sort (map fst acc) = sorted_list_of_set (fst ` set ?kv)"
    using m d by (rule sorted_keys_of_agg_map)
  have "calculate_averages acc (sort (map fst acc)) = Inr (map (bucket_of ?kv) (sort (map fst acc)))"
    using keys_of_agg_map [OF m] by (intro calculate_averages_char [OF m _ nums]) simp
  then show ?thesis
    using a keys by (cases "data = []") (simp_all add: aggregate_by_period_def entries_def)
qed

lemma aggregate_by_period_success:
  assumes "aggregate_by_period P data df vf period = Inr bs"
  shows "\<forall>r\<in>set data. kept df vf r \<longrightarrow> parses P df r \<and> is_num (dict_get r vf)"
proof (cases "data = []")
  case True
  then show ?thesis by simp
next
  case False
  let ?kv = "entries P df vf period data"
  from assms False obtain acc where a: "aggregate_records P df vf period data [] = Inr acc"
    and c: "calculate_averages acc (sort (map fst acc)) = Inr bs"
    by (auto simp: aggregate_by_period_def split: sum.splits)
  have p: "\<forall>r\<in>set data. kept df vf r \<longrightarrow> parses P df r"
    using a by (rule aggregate_records_parses)
  from aggregate_records_char [of "[]" "[]" data df vf P period] p a
  have m: "map_of acc = agg_map ?kv"
    by (auto simp: agg_map_empty)
  have ks: "set (sort (map fst acc)) = fst ` set ?kv"
    using keys_of_agg_map [OF m] by simp
  have "set (sort (map fst acc)) \<subseteq> fst ` set ?kv"
    using ks by blast
  from calculate_averages_is_num [OF m c this]
  have nums: "\<forall>k\<in>fst ` set ?kv. \<forall>v\<in>set (key_values ?kv k). is_num v"
    unfolding ks .
  show ?thesis
  proof (intro ballI impI conjI)
    fix r assume r: "r \<in> set data" and k: "kept df vf r"
    show "parses P df r" using p r k by blast
    then obtain d where d: "parse_date P (dict_get r df) = Inr d"
      by (auto simp: parses_def split: sum.splits)
    have "(period_key period d, dict_get r vf) \<in> set ?kv"
      using k d r by (rule entry_in_entries)
    then have "dict_get r vf \<in> set (key_values ?kv (period_key period d))"
      and "period_key period d \<in> fst ` set ?kv"
      by (force simp: key_values_def)+
    then show "is_num (dict_get r vf)"
      using nums by blast
  qed
qed


lemma bucket_period_bucket_of: "bucket_period (bucket_of kv k) = k"
  by (simp add: bucket_period_def bucket_of_def dict_get_def)




lemma mset_entries:
  "mset (entries P df vf period data)
     = sum_mset (image_mset (\<lambda>r. mset (entry_of P df vf period r)) (mset data))"
  by (induction data) (simp_all add: entries_def)

lemma bucket_of_cong:
  assumes "mset kv' = mset kv"
  shows "bucket_of kv' k = bucket_of kv k"
proof -
  have "mset (key_values kv' k) = mset (key_values kv k)"
    using assms by (metis key_values_def mset_filter mset_map)
  then have "sum_list (map num_of (key_values kv' k)) = sum_list (map num_of (key_values kv k))"
    and "length (key_values kv' k) = length (key_values kv k)"
    by (metis mset_map sum_mset_sum_list, metis size_mset)
  then show ?thesis by (simp add: bucket_of_def)
qed

lemma example_aggregate:
  "aggregate_by_period fromisoformat_date_only example_records ''date'' ''value'' ''day''
     = Inr example_buckets"
  by code_simp

subsection \<open>PeriodAggregator: counts\<close>




subsection \<open>PeriodAggregator: order\<close>

text \<open>
  Claim C6. For every input record list, the bucket list returned by
  \<open>aggregate_by_period\<close> is sorted ascending by bucket key (no key occurs twice), and the
  output is the same for every permutation of the input records.
\<close>

theorem aggregate_by_period_sorted:
  assumes "aggregate_by_period fromisoformat data date_field value_field period = Inr buckets"
  shows "sorted (map bucket_period buckets) \<and> distinct (map bucket_period buckets)
         \<and> (\<forall>data'. mset data' = mset data \<longrightarrow>
              aggregate_by_period fromisoformat data' date_field value_field period = Inr buckets)"
proof -
  let ?kv = "entries fromisoformat date_field value_field period data"
  have ok: "\<forall>r\<in>set data. kept date_field value_field r \<longrightarrow>
            parses fromisoformat date_field r \<and> is_num (dict_get r value_field)"
    using assms by (rule aggregate_by_period_success)
  then have b: "buckets = map (bucket_of ?kv) (sorted_list_of_set (fst ` set ?kv))"
    using assms aggregate_by_period_char [of data date_field value_field fromisoformat period] by simp
  have keys: "map bucket_period buckets = sorted_list_of_set (fst ` set ?kv)"
    unfolding b by (simp add: comp_def bucket_period_bucket_of)
  have perm: "aggregate_by_period fromisoformat data' date_field value_field period = Inr buckets"
    if "mset data' = mset data" for data'
  proof -
    let ?kv' = "entries fromisoformat date_field value_field period data'"
    have "set data' = set data"
      using that by (rule mset_eq_setD)
    then have "aggregate_by_period fromisoformat data' date_field value_field period
                 = Inr (map (bucket_of ?kv') (sorted_list_of_set (fst ` set ?kv')))"
      using ok by (intro aggregate_by_period_char) simp
    moreover have m: "mset ?kv' = mset ?kv"
      using that by (simp add: mset_entries)
    then have "set ?kv' = set ?kv"
      by (rule mset_eq_setD)
    ultimately show ?thesis
      unfolding b using bucket_of_cong [OF m] by simp
  qed
  show ?thesis
    using keys perm by simp
qed

theorem aggregate_by_period_sorted_witness:
  "aggregate_by_period fromisoformat_date_only example_records ''date'' ''value'' ''day''
     = Inr example_buckets
   \<and> map bucket_period example_buckets = [''2024-01-14'', ''2024-01-15'']
   \<and> sorted (map bucket_period example_buckets)
   \<and> aggregate_by_period fromisoformat_date_only (rev example_records) ''date'' ''value'' ''day''
       = Inr example_buckets"
proof -
  have p: "map bucket_period example_buckets = [''2024-01-14'', ''2024-01-15'']"
    by code_simp
  have "mset (rev example_records) = mset example_records"
    by simp
  then show ?thesis
    using p aggregate_by_period_sorted [OF example_aggregate] by simp
qed

subsection \<open>Printing and reading decimal fields\<close>

lemma digit_value_digit_char: "n < 10 \<Longrightarrow> digit_value (digit_char n) = Some n"
proof -
  assume "n < 10"
  then have "n \<in> {0, 1, 2, 3, 4, 5, 6, 7, 8, 9}" by auto
  then show ?thesis
    by (auto simp: digit_value_def digit_char_def)
qed

lemma decimal_value_append:
  "decimal_value (xs @ ys) =
     (case decimal_value xs of
        None \<Rightarrow> None
      | Some a \<Rightarrow> (case decimal_value ys of None \<Rightarrow> None | Some b \<Rightarrow> Some (a * 10 ^ length ys + b)))"
  by (induction xs) (auto split: option.splits simp: power_add algebra_simps)

lemma length_zero_padded: "length (zero_padded w n) = w"
  by (induction w arbitrary: n) simp_all

lemma decimal_value_zero_padded: "n < 10 ^ w \<Longrightarrow> decimal_value (zero_padded w n) = Some n"
proof (induction w arbitrary: n)
  case 0
  then show ?case by simp
next
  case (Suc w)
  then have "n div 10 < 10 ^ w" by (simp add: less_mult_imp_div_less mult.commute)
  then have "decimal_value (zero_padded w (n div 10)) = Some (n div 10)"
    by (rule Suc.IH)
  then show ?case
    by (simp add: decimal_value_append digit_value_digit_char)
qed

lemma digit_char_not: "n < 10 \<Longrightarrow> digit_char n \<noteq> CHR ''Z'' \<and> digit_char n \<noteq> CHR ''-''"
proof -
  assume "n < 10"
  then have "n \<in> {0, 1, 2, 3, 4, 5, 6, 7, 8, 9}" by auto
  then show ?thesis
    by (auto simp: digit_char_def)
qed

lemma zero_padded_no_Z: "CHR ''Z'' \<notin> set (zero_padded w n)"
proof (induction w arbitrary: n)
  case 0
  then show ?case by simp
next
  case (Suc w)
  have "digit_char (n mod 10) \<noteq> CHR ''Z''"
    using digit_char_not [of "n mod 10"] by simp
  with Suc show ?case by simp
qed

lemma replace_char_id: "c \<notin> set s \<Longrightarrow> replace_char c new s = s"
  by (induction s) (auto simp: replace_char_def)

lemma strftime_day_no_Z: "replace_char CHR ''Z'' new (strftime_day d) = strftime_day d"
  by (rule replace_char_id) (simp add: strftime_day_def zero_padded_no_Z)

lemma monday_count:
  "length (filter (\<lambda>j. (a + j) mod 7 = 0) [0..<Suc n]) = (n + 7 - (a + n) mod 7) div (7::nat)"
proof (induction n)
  case 0
  show ?case by (cases "a mod 7 = 0") (simp_all add: div_eq_0_iff)
next
  case (Suc n)
  define m where "m = (a + n) mod 7"
  have m: "m < 7" by (simp add: m_def)
  have next_day: "(a + Suc n) mod 7 = (if m = 6 then 0 else m + 1)"
    by (simp add: mod_Suc m_def)
  have step: "length (filter (\<lambda>j. (a + j) mod 7 = 0) [0..<Suc (Suc n)])
                = length (filter (\<lambda>j. (a + j) mod 7 = 0) [0..<Suc n])
                  + (if (a + Suc n) mod 7 = 0 then 1 else 0)"
    by simp
  have "(n + 7 - m) div 7 + (if (a + Suc n) mod 7 = 0 then 1 else 0)
          = (Suc n + 7 - (a + Suc n) mod 7) div 7"
  proof (cases "m = 6")
    case True
    then have z: "(a + Suc n) mod 7 = 0" unfolding next_day by simp
    have "(n + 8) div 7 = (n + 1) div 7 + 1" by simp
    then show ?thesis unfolding z True by simp
  next
    case False
    then have z: "(a + Suc n) mod 7 = m + 1" unfolding next_day by simp
    show ?thesis unfolding z using m by simp
  qed
  then show ?case
    unfolding step Suc.IH m_def .
qed

subsection \<open>The calendar\<close>

lemma valid_date_month: "valid_date d \<Longrightarrow> month d \<in> {1, 2, 3, 4, 5, 6, 7, 8, 9, 10, 11, 12}"
proof -
  assume "valid_date d"
  then have "1 \<le> month d" and "month d \<le> 12"
    by (simp_all add: valid_date_def)
  then show ?thesis
    by (simp only: insert_iff empty_iff) arith
qed

lemma days_in_month_le: "m \<in> {1, 2, 3, 4, 5, 6, 7, 8, 9, 10, 11, 12} \<Longrightarrow> days_in_month y m \<le> 31"
  by (auto simp: days_in_month_def)

lemma yday_bounds:
  assumes "valid_date d"
  shows "1 \<le> yday d" and "yday d \<le> 366"
proof -
  show "1 \<le> yday d"
    using assms by (simp add: yday_def valid_date_def)
  have "month d \<in> {1, 2, 3, 4, 5, 6, 7, 8, 9, 10, 11, 12}"
    using assms by (rule valid_date_month)
  moreover have "day d \<le> days_in_month (year d) (month d)"
    using assms by (simp add: valid_date_def)
  ultimately show "yday d \<le> 366"
    by (auto simp: yday_def days_before_month_def days_in_month_def split: if_splits)
qed

lemma toordinal_yday: "toordinal d = days_before_year (year d) + yday d"
  by (simp add: toordinal_def ymd2ord_def yday_def)

lemma toordinal_new_year: "toordinal (new_year d) = days_before_year (year d) + 1"
  by (simp add: toordinal_def ymd2ord_def new_year_def days_before_month_def)

lemma week_of_year_monday_count:
  assumes "valid_date d"
  shows "week_of_year_monday d = mondays_from_new_year d"
proof -
  obtain n where n: "yday d = Suc n"
    using yday_bounds(1) [OF assms] by (cases "yday d") simp_all
  let ?a = "days_before_year (year d) + 7"
  have "(days_before_year (year d) + n + 7) mod 7 = (days_before_year (year d) + n) mod 7"
    by (rule mod_add_self2)
  then have w: "weekday d = (?a + n) mod 7"
    by (simp add: weekday_def toordinal_yday n add.commute add.left_commute)
  have "mondays_from_new_year d = length (filter (\<lambda>j. (?a + j) mod 7 = 0) [0..<Suc n])"
    by (simp add: mondays_from_new_year_def toordinal_new_year n add.commute add.left_commute)
  also have "\<dots> = (n + 7 - (?a + n) mod 7) div 7"
    by (rule monday_count)
  also have "\<dots> = week_of_year_monday d"
    by (simp add: week_of_year_monday_def n w)
  finally show ?thesis by simp
qed

lemma week_of_year_monday_le: "valid_date d \<Longrightarrow> week_of_year_monday d \<le> 53"
  using yday_bounds(2) [of d] by (simp add: week_of_year_monday_def)

lemma aggregate_by_period_keys:
  assumes "aggregate_by_period P data df vf period = Inr buckets"
  shows "map bucket_period buckets = sorted_list_of_set (fst ` set (entries P df vf period data))"
proof -
  have "\<forall>r\<in>set data. kept df vf r \<longrightarrow> parses P df r \<and> is_num (dict_get r vf)"
    using assms by (rule aggregate_by_period_success)
  then have "buckets = map (bucket_of (entries P df vf period data))
               (sorted_list_of_set (fst ` set (entries P df vf period data)))"
    using assms aggregate_by_period_char [of data df vf P period] by simp
  then show ?thesis
    by (simp add: comp_def bucket_period_bucket_of)
qed

text \<open>Evaluating the calendar functions at a given date.\<close>

lemma zero_padded_2: "zero_padded 2 n = [digit_char (n div 10 mod 10), digit_char (n mod 10)]"
proof -
  have "zero_padded (Suc (Suc 0)) n = [digit_char (n div 10 mod 10), digit_char (n mod 10)]"
    by simp
  then show ?thesis by (simp add: numeral_2_eq_2)
qed

lemma zero_padded_4:
  "zero_padded 4 n =
     [digit_char (n div 1000 mod 10), digit_char (n div 100 mod 10),
      digit_char (n div 10 mod 10), digit_char (n mod 10)]"
proof -
  have a: "n div 100 = n div 10 div 10"
    using div_mult2_eq [of n 10 10] by simp
  have b: "n div 1000 = n div 10 div 10 div 10"
    using div_mult2_eq [of n 100 10] a by simp
  have "zero_padded (Suc (Suc (Suc (Suc 0)))) n =
     [digit_char (n div 10 div 10 div 10 mod 10), digit_char (n div 10 div 10 mod 10),
      digit_char (n div 10 mod 10), digit_char (n mod 10)]"
    by simp
  moreover have "(4::nat) = Suc (Suc (Suc (Suc 0)))" by simp
  ultimately show ?thesis unfolding a b by metis
qed

lemmas date_eval =
  period_key_def strftime_day_def strftime_week_def strftime_month_def spec_week_key_def
  zero_padded_2 zero_padded_4 digit_char_def
  week_of_year_monday_def week_of_year_sunday_def mondays_from_new_year_def
  sundays_after_new_year_def new_year_def
  yday_def weekday_def toordinal_def ymd2ord_def days_before_year_def days_before_month_def
  days_in_month_def is_leap_def valid_date_def upt_conv_Cons

subsection \<open>PeriodAggregator: bucket keys\<close>

text \<open>
  Claim C4, as stated, has weeks begin on Sunday with week 00 starting on 1 January. The
  source formats with \<open>%W\<close>, whose weeks begin on Monday. Monday 1 January 2024 is in
  week 01 for the source and in week 00 for the claim (under both Sunday-based
  conventions); Sunday 7 and Monday 8 January 2024 are in different weeks for the source
  and in the same week for the claim.
\<close>

theorem week_key_not_sunday_based:
  "period_key ''week'' \<lparr>year = 2024, month = 1, day = 1\<rparr>
     \<noteq> spec_week_key \<lparr>year = 2024, month = 1, day = 1\<rparr>
   \<and> period_key ''week'' \<lparr>year = 2024, month = 1, day = 1\<rparr> = ''2024-W01''
   \<and> spec_week_key \<lparr>year = 2024, month = 1, day = 1\<rparr> = ''2024-W00''
   \<and> week_of_year_sunday \<lparr>year = 2024, month = 1, day = 1\<rparr> = 0
   \<and> period_key ''week'' \<lparr>year = 2024, month = 1, day = 7\<rparr> = ''2024-W01''
   \<and> period_key ''week'' \<lparr>year = 2024, month = 1, day = 8\<rparr> = ''2024-W02''
   \<and> spec_week_key \<lparr>year = 2024, month = 1, day = 7\<rparr>
       = spec_week_key \<lparr>year = 2024, month = 1, day = 8\<rparr>"
  by (simp add: date_eval)

text \<open>
  Claim C4, amended. For every record with a parseable date (a date of the calendar with a
  four-digit year), \<open>aggregate_by_period\<close> derives the bucket key as YYYY-MM-DD for period
  'day', as YYYY-Www for period 'week', where ww is the number of Mondays from 1 January
  of that year up to and including the date (weeks begin on Monday, the days before the
  first Monday are in week 00), as YYYY-MM for period 'month', and as the day format for
  any other period value; the key of every kept record is the period of one of the
  returned buckets.
\<close>

theorem period_key_spec:
  assumes "valid_date d" and "1000 \<le> year d"
  shows "(let k = period_key ''day'' d
          in length k = 10 \<and> decimal_value (take 4 k) = Some (year d) \<and> k ! 4 = CHR ''-''
             \<and> decimal_value (take 2 (drop 5 k)) = Some (month d) \<and> k ! 7 = CHR ''-''
             \<and> decimal_value (drop 8 k) = Some (day d))
       \<and> (let k = period_key ''week'' d
          in length k = 8 \<and> decimal_value (take 4 k) = Some (year d) \<and> k ! 4 = CHR ''-''
             \<and> k ! 5 = CHR ''W'' \<and> decimal_value (drop 6 k) = Some (mondays_from_new_year d))
       \<and> (let k = period_key ''month'' d
          in length k = 7 \<and> decimal_value (take 4 k) = Some (year d) \<and> k ! 4 = CHR ''-''
             \<and> decimal_value (drop 5 k) = Some (month d))
       \<and> (period \<noteq> ''day'' \<and> period \<noteq> ''week'' \<and> period \<noteq> ''month'' \<longrightarrow>
            period_key period d = period_key ''day'' d)
       \<and> (aggregate_by_period fromisoformat data date_field value_field period = Inr buckets
            \<and> r \<in> set data \<and> kept date_field value_field r
            \<and> parse_date fromisoformat (dict_get r date_field) = Inr d \<longrightarrow>
            period_key period d \<in> set (map bucket_period buckets))"
proof -
  have y: "year d < 10 ^ 4" and m: "month d < 10 ^ 2" and dd: "day d < 10 ^ 2"
    using assms(1) valid_date_month [OF assms(1)] days_in_month_le [of "month d" "year d"]
    by (auto simp: valid_date_def)
  have w: "week_of_year_monday d < 10 ^ 2"
    using week_of_year_monday_le [OF assms(1)] by simp
  note dv = decimal_value_zero_padded [OF y] decimal_value_zero_padded [OF m]
    decimal_value_zero_padded [OF dd] decimal_value_zero_padded [OF w]
  have l4: "length (zero_padded 4 (year d)) = 4" by (rule length_zero_padded)
  have l2: "length (zero_padded 2 n) = 2" for n by (rule length_zero_padded)
  have day: "let k = period_key ''day'' d
          in length k = 10 \<and> decimal_value (take 4 k) = Some (year d) \<and> k ! 4 = CHR ''-''
             \<and> decimal_value (take 2 (drop 5 k)) = Some (month d) \<and> k ! 7 = CHR ''-''
             \<and> decimal_value (drop 8 k) = Some (day d)"
    using dv l4 l2 by (simp add: period_key_def strftime_day_def Let_def nth_append)
  have week: "let k = period_key ''week'' d
          in length k = 8 \<and> decimal_value (take 4 k) = Some (year d) \<and> k ! 4 = CHR ''-''
             \<and> k ! 5 = CHR ''W'' \<and> decimal_value (drop 6 k) = Some (mondays_from_new_year d)"
    using dv l4 l2 week_of_year_monday_count [OF assms(1)]
    by (simp add: period_key_def strftime_week_def Let_def nth_append)
  have month: "let k = period_key ''month'' d
          in length k = 7 \<and> decimal_value (take 4 k) = Some (year d) \<and> k ! 4 = CHR ''-''
             \<and> decimal_value (drop 5 k) = Some (month d)"
    using dv l4 l2 by (simp add: period_key_def strftime_month_def Let_def nth_append)
  have other: "period \<noteq> ''day'' \<and> period \<noteq> ''week'' \<and> period \<noteq> ''month'' \<longrightarrow>
            period_key period d = period_key ''day'' d"
    by (simp add: period_key_def)
  have mem: "aggregate_by_period fromisoformat data date_field value_field period = Inr buckets
            \<and> r \<in> set data \<and> kept date_field value_field r
            \<and> parse_date fromisoformat (dict_get r date_field) = Inr d \<longrightarrow>
            period_key period d \<in> set (map bucket_period buckets)"
  proof (intro impI, elim conjE)
    assume a: "aggregate_by_period fromisoformat data date_field value_field period = Inr buckets"
      and r: "r \<in> set data" and k: "kept date_field value_field r"
      and p: "parse_date fromisoformat (dict_get r date_field) = Inr d"
    have "(period_key period d, dict_get r value_field)
            \<in> set (entries fromisoformat date_field value_field period data)"
      using k p r by (rule entry_in_entries)
    then have "period_key period d \<in> fst ` set (entries fromisoformat date_field value_field period data)"
      by force
    then show "period_key period d \<in> set (map bucket_period buckets)"
      unfolding aggregate_by_period_keys [OF a] by simp
  qed
  show ?thesis
    using day week month other mem by blast
qed

theorem period_key_spec_witness:
  "valid_date \<lparr>year = 2024, month = 1, day = 15\<rparr>
   \<and> 1000 \<le> year \<lparr>year = 2024, month = 1, day = 15\<rparr>
   \<and> period_key ''day'' \<lparr>year = 2024, month = 1, day = 15\<rparr> = ''2024-01-15''
   \<and> period_key ''week'' \<lparr>year = 2024, month = 1, day = 15\<rparr> = ''2024-W03''
   \<and> mondays_from_new_year \<lparr>year = 2024, month = 1, day = 15\<rparr> = 3
   \<and> period_key ''month'' \<lparr>year = 2024, month = 1, day = 15\<rparr> = ''2024-01''
   \<and> period_key ''hour'' \<lparr>year = 2024, month = 1, day = 15\<rparr> = ''2024-01-15''
   \<and> ''2024-01-15'' \<in> set (map bucket_period example_buckets)"
proof -
  let ?d = "\<lparr>year = 2024, month = 1, day = 15\<rparr>"
  let ?r = "[(''date'', PStr ''2024-01-15''), (''value'', PNum 1)]"
  have v: "valid_date ?d" and y: "1000 \<le> year ?d"
    by (simp_all add: date_eval)
  have k: "period_key ''day'' ?d = ''2024-01-15''" "period_key ''week'' ?d = ''2024-W03''"
    "period_key ''month'' ?d = ''2024-01''" "mondays_from_new_year ?d = 3"
    by (simp_all add: date_eval)
  have r: "?r \<in> set example_records" "kept ''date'' ''value'' ?r"
    "parse_date fromisoformat_date_only (dict_get ?r ''date'') = Inr ?d"
    by code_simp+
  show ?thesis
    using v y k r example_aggregate
      period_key_spec [OF v y, of "''hour''" fromisoformat_date_only example_records
        "''date''" "''value''" example_buckets ?r]
      period_key_spec [OF v y, of "''day''" fromisoformat_date_only example_records
        "''date''" "''value''" example_buckets ?r]
    by simp
qed

subsection \<open>PeriodAggregator: aggregating the buckets again\<close>

lemma py_round_int_of_int: "py_round_int (of_int z) = z"
  by (simp add: py_round_int_def)

lemma py_round_idem: "py_round (py_round x n) n = py_round x n"
  by (simp add: py_round_def py_round_int_of_int)

lemma strftime_day_length: "length (strftime_day d) = 10"
  by (simp add: strftime_day_def length_zero_padded)

lemma fromisoformat_date_only_strftime_day:
  assumes "valid_date d"
  shows "fromisoformat_date_only (strftime_day d) = Inr d"
proof -
  have y: "year d < 10 ^ 4" and m: "month d < 10 ^ 2" and dd: "day d < 10 ^ 2"
    using assms valid_date_month [OF assms] days_in_month_le [of "month d" "year d"]
    by (auto simp: valid_date_def)
  note dv = decimal_value_zero_padded [OF y] decimal_value_zero_padded [OF m]
    decimal_value_zero_padded [OF dd]
  have l4: "length (zero_padded 4 (year d)) = 4" by (rule length_zero_padded)
  have l2: "length (zero_padded 2 n) = 2" for n by (rule length_zero_padded)
  have "\<lparr>year = year d, month = month d, day = day d\<rparr> = d"
    by simp
  then show ?thesis
    using dv l4 l2 assms
    by (simp add: fromisoformat_date_only_def strftime_day_def nth_append valid_date_def)
qed

lemma entries_keys:
  "e \<in> set (entries P df vf period data) \<Longrightarrow>
   \<exists>r\<in>set data. kept df vf r
      \<and> (\<exists>d. parse_date P (dict_get r df) = Inr d \<and> fst e = period_key period d)"
proof -
  assume "e \<in> set (entries P df vf period data)"
  then have "\<exists>r\<in>set data. e \<in> set (entry_of P df vf period r)"
    by (simp add: entries_def)
  then obtain r where r: "r \<in> set data" and e: "e \<in> set (entry_of P df vf period r)"
    by blast
  have k: "kept df vf r"
    using e by (cases "kept df vf r") (simp_all add: entry_of_def)
  have "\<exists>d. parse_date P (dict_get r df) = Inr d \<and> e = (period_key period d, dict_get r vf)"
    using e k by (cases "parse_date P (dict_get r df)") (simp_all add: entry_of_def)
  then show ?thesis
    using r k by auto
qed

lemma filter_key_distinct:
  "distinct keys \<Longrightarrow> k \<in> set keys \<Longrightarrow>
   filter (\<lambda>e. fst e = k) (map (\<lambda>k. (k, f k)) keys) = [(k, f k)]"
proof (induction keys)
  case Nil
  then show ?case by simp
next
  case (Cons a keys)
  show ?case
  proof (cases "a = k")
    case True
    then have "k \<notin> set keys" using Cons.prems(1) by simp
    then have "filter (\<lambda>e. fst e = k) (map (\<lambda>k. (k, f k)) keys) = []"
      by (auto simp: filter_empty_conv)
    with True show ?thesis by simp
  next
    case False
    with Cons show ?thesis by simp
  qed
qed

lemma example_reaggregate:
  "aggregate_by_period fromisoformat_date_only example_buckets ''period'' ''average'' ''day''
     = Inr [[(''period'', PStr ''2024-01-14''), (''average'', PNum 4), (''count'', PNum 1)],
            [(''period'', PStr ''2024-01-15''), (''average'', PNum (3 / 2)), (''count'', PNum 1)]]"
  by code_simp

text \<open>
  Claim C7, as stated, has the second aggregation return the identical bucket list. The
  count of a bucket is the number of records in it, so the second aggregation, which sees
  one record for each bucket, returns count 1 everywhere: the bucket of 15 January 2024,
  made of two records, comes back with count 1 instead of 2.
\<close>

theorem reaggregate_not_identity:
  "aggregate_by_period fromisoformat_date_only example_records ''date'' ''value'' ''day''
     = Inr example_buckets
   \<and> aggregate_by_period fromisoformat_date_only example_buckets ''period'' ''average'' ''day''
       \<noteq> Inr example_buckets"
  using example_aggregate example_reaggregate by (simp add: example_buckets_def)

text \<open>
  Claim C7, amended. For every bucket list produced by \<open>aggregate_by_period\<close> with
  period 'day' (or any period value other than 'week' and 'month', which falls back to
  the day format) from records whose dates are calendar dates with four-digit years,
  aggregating that list again with the bucket's period string as the date field and the
  bucket's average as the value field, at the same period, returns the same buckets in
  the same order, each with the same period and the same average and with count 1; the
  library parser is assumed to read back a date from its YYYY-MM-DD form.
\<close>

theorem reaggregate_by_day:
  assumes agg: "aggregate_by_period fromisoformat data date_field value_field period = Inr buckets"
    and per: "period \<noteq> ''week'' \<and> period \<noteq> ''month''"
    and rb: "\<forall>d. valid_date d \<and> 1000 \<le> year d \<longrightarrow> fromisoformat (strftime_day d) = Inr d"
    and dates: "\<forall>r\<in>set data. kept date_field value_field r \<longrightarrow>
                 (case parse_date fromisoformat (dict_get r date_field) of
                    Inl e \<Rightarrow> True
                  | Inr d \<Rightarrow> valid_date d \<and> 1000 \<le> year d)"
  shows "aggregate_by_period fromisoformat buckets ''period'' ''average'' period
           = Inr (map (dict_set ''count'' (PNum 1)) buckets)"
proof -
  let ?kv = "entries fromisoformat date_field value_field period data"
  let ?keys = "sorted_list_of_set (fst ` set ?kv)"
  let ?kv2 = "map (\<lambda>k. (k, PNum (bucket_average ?kv k))) ?keys"
  have ok: "\<forall>r\<in>set data. kept date_field value_field r \<longrightarrow>
            parses fromisoformat date_field r \<and> is_num (dict_get r value_field)"
    using agg by (rule aggregate_by_period_success)
  then have b: "buckets = map (bucket_of ?kv) ?keys"
    using agg aggregate_by_period_char [of data date_field value_field fromisoformat period]
    by simp
  have pk: "period_key period d = strftime_day d" for d
    using per by (simp add: period_key_def)
  have key_date: "\<exists>d. valid_date d \<and> 1000 \<le> year d \<and> k = strftime_day d"
    if "k \<in> set ?keys" for k
  proof -
    from that obtain e where e: "e \<in> set ?kv" and k: "k = fst e"
      by auto
    from entries_keys [OF e] obtain r d where r: "r \<in> set data"
      and kr: "kept date_field value_field r"
      and d: "parse_date fromisoformat (dict_get r date_field) = Inr d"
      and fe: "fst e = period_key period d"
      by blast
    from dates r kr d have "valid_date d \<and> 1000 \<le> year d"
      by fastforce
    moreover have "k = strftime_day d"
      using k fe pk by simp
    ultimately show ?thesis by blast
  qed
  have bucket: "kept ''period'' ''average'' (bucket_of ?kv k)
                \<and> parses fromisoformat ''period'' (bucket_of ?kv k)
                \<and> is_num (dict_get (bucket_of ?kv k) ''average'')
                \<and> entry_of fromisoformat ''period'' ''average'' period (bucket_of ?kv k)
                    = [(k, PNum (bucket_average ?kv k))]"
    if "k \<in> set ?keys" for k
  proof -
    from key_date [OF that] obtain d where v: "valid_date d \<and> 1000 \<le> year d"
      and k: "k = strftime_day d"
      by blast
    have ne: "k \<noteq> []"
      using strftime_day_length [of d] k by auto
    have p: "parse_date fromisoformat (PStr k) = Inr d"
      using rb v by (simp add: parse_date_def k strftime_day_no_Z)
    show ?thesis
      using ne p pk [of d] k
      by (simp add: entry_of_def kept_def parses_def bucket_of_def dict_get_def
          bucket_average_def)
  qed
  have kv2: "entries fromisoformat ''period'' ''average'' period buckets = ?kv2"
  proof -
    have "concat (map (entry_of fromisoformat ''period'' ''average'' period)
                    (map (bucket_of ?kv) ks))
            = map (\<lambda>k. (k, PNum (bucket_average ?kv k))) ks"
      if "set ks \<subseteq> set ?keys" for ks
      using that by (induction ks) (simp_all add: bucket)
    then show ?thesis
      unfolding b entries_def by blast
  qed
  have cond: "\<forall>r\<in>set buckets. kept ''period'' ''average'' r \<longrightarrow>
                parses fromisoformat ''period'' r \<and> is_num (dict_get r ''average'')"
    unfolding b using bucket by auto
  have keys2: "sorted_list_of_set (fst ` set ?kv2) = ?keys"
  proof -
    have "fst ` set ?kv2 = set ?keys"
      by force
    then show ?thesis
      by (simp add: sorted_list_of_set.idem_if_sorted_distinct)
  qed
  have bucket2: "bucket_of ?kv2 k = dict_set ''count'' (PNum 1) (bucket_of ?kv k)"
    if "k \<in> set ?keys" for k
  proof -
    have "distinct ?keys" by simp
    then have "key_values ?kv2 k = [PNum (bucket_average ?kv k)]"
      using that unfolding key_values_def
      by (subst filter_key_distinct) simp_all
    then show ?thesis
      by (simp add: bucket_of_def bucket_average_def py_round_idem)
  qed
  have "aggregate_by_period fromisoformat buckets ''period'' ''average'' period
          = Inr (map (bucket_of ?kv2) ?keys)"
    using aggregate_by_period_char [OF cond, of period] by (simp only: kv2 keys2)
  also have "map (bucket_of ?kv2) ?keys = map (dict_set ''count'' (PNum 1)) buckets"
    unfolding b using bucket2 by simp
  finally show ?thesis .
qed

theorem reaggregate_by_day_witness:
  "aggregate_by_period fromisoformat_date_only example_records ''date'' ''value'' ''day''
     = Inr example_buckets
   \<and> ''day'' \<noteq> ''week'' \<and> ''day'' \<noteq> ''month''
   \<and> fromisoformat_date_only (strftime_day \<lparr>year = 2024, month = 1, day = 15\<rparr>)
       = Inr \<lparr>year = 2024, month = 1, day = 15\<rparr>
   \<and> aggregate_by_period fromisoformat_date_only example_buckets ''period'' ''average'' ''day''
       = Inr [[(''period'', PStr ''2024-01-14''), (''average'', PNum 4), (''count'', PNum 1)],
              [(''period'', PStr ''2024-01-15''), (''average'', PNum (3 / 2)), (''count'', PNum 1)]]"
proof -
  have per: "''day'' \<noteq> ''week'' \<and> ''day'' \<noteq> ''month''"
    by simp
  have rb: "\<forall>d. valid_date d \<and> 1000 \<le> year d \<longrightarrow> fromisoformat_date_only (strftime_day d) = Inr d"
    by (simp add: fromisoformat_date_only_strftime_day)
  have dates: "\<forall>r\<in>set example_records. kept ''date'' ''value'' r \<longrightarrow>
                 (case parse_date fromisoformat_date_only (dict_get r ''date'') of
                    Inl e \<Rightarrow> True
                  | Inr d \<Rightarrow> valid_date d \<and> 1000 \<le> year d)"
    by code_simp
  have v: "valid_date \<lparr>year = 2024, month = 1, day = 15\<rparr>"
    by (simp add: date_eval)
  show ?thesis
    using reaggregate_by_day [OF example_aggregate per rb dates] example_aggregate
      fromisoformat_date_only_strftime_day [OF v]
    by (simp add: example_buckets_def)
qed

subsection \<open>Rounding to an integer\<close>

lemma py_round_int_near: "\<bar>x - of_int m\<bar> < 1 / 2 \<Longrightarrow> py_round_int x = m"
proof -
  assume a: "\<bar>x - of_int m\<bar> < 1 / 2"
  consider "of_int m \<le> x" | "x < of_int m" by linarith
  then show ?thesis
  proof cases
    case 1
    then have "\<lfloor>x\<rfloor> = m" using a by (intro floor_unique) auto
    then show ?thesis using a 1 by (simp add: py_round_int_def Let_def)
  next
    case 2
    then have "\<lfloor>x\<rfloor> = m - 1" using a by (intro floor_unique) auto
    then show ?thesis using a 2 by (auto simp add: py_round_int_def Let_def)
  qed
qed

lemma py_round_int_error: "\<bar>of_int (py_round_int x) - x\<bar> \<le> 1 / 2"
proof -
  have "of_int \<lfloor>x\<rfloor> \<le> x" "x < of_int \<lfloor>x\<rfloor> + 1" by linarith+
  then show ?thesis by (auto simp add: py_round_int_def Let_def)
qed

lemma py_round_int_tie_even:
  assumes "\<bar>of_int (py_round_int x) - x\<bar> = 1 / 2"
  shows "even (py_round_int x)"
proof -
  define f where "f = \<lfloor>x\<rfloor>"
  have fb: "of_int f \<le> x" "x < of_int f + 1" unfolding f_def by linarith+
  have d: "x - of_int f = 1 / 2"
    using assms fb unfolding py_round_int_def Let_def f_def [symmetric]
    by (auto split: if_splits)
  then have "py_round_int x = (if even f then f else f + 1)"
    unfolding py_round_int_def Let_def f_def [symmetric] by simp
  then show ?thesis by auto
qed

lemma py_round_int_ge: "of_int z \<le> x \<Longrightarrow> z \<le> py_round_int x"
proof -
  assume "of_int z \<le> x"
  then have "z \<le> \<lfloor>x\<rfloor>" by (simp add: le_floor_iff)
  moreover have "\<lfloor>x\<rfloor> \<le> py_round_int x" by (simp add: py_round_int_def Let_def)
  ultimately show ?thesis by simp
qed

lemma py_round_int_unique:
  assumes "\<bar>of_int k - x\<bar> \<le> 1 / 2" and "\<bar>of_int k - x\<bar> = 1 / 2 \<longrightarrow> even k"
  shows "py_round_int x = k"
proof (cases "\<bar>of_int k - x\<bar> < 1 / 2")
  case True
  then have "\<bar>x - of_int k\<bar> < 1 / 2" by (simp only: abs_minus_commute)
  then show ?thesis by (rule py_round_int_near)
next
  case False
  with assms have t: "\<bar>of_int k - x\<bar> = 1 / 2" and ev: "even k" by auto
  let ?r = "py_round_int x"
  have e: "\<bar>of_int ?r - x\<bar> \<le> 1 / 2" by (rule py_round_int_error)
  have "\<not> \<bar>of_int ?r - x\<bar> < 1 / 2"
  proof
    assume "\<bar>of_int ?r - x\<bar> < 1 / 2"
    with t have "\<bar>(of_int ?r :: rat) - of_int k\<bar> < 1" by linarith
    then have "\<bar>?r - k\<bar> < 1"
      by (metis of_int_abs of_int_diff of_int_less_1_iff)
    then have "?r = k" by simp
    with t \<open>\<bar>of_int ?r - x\<bar> < 1 / 2\<close> show False by simp
  qed
  with e have t2: "\<bar>of_int ?r - x\<bar> = 1 / 2" by simp
  then have ev2: "even ?r" by (rule py_round_int_tie_even)
  from t t2 have "\<bar>(of_int ?r :: rat) - of_int k\<bar> \<le> 1" by linarith
  then have "\<bar>?r - k\<bar> \<le> 1"
    by (metis of_int_abs of_int_diff of_int_le_1_iff)
  with ev ev2 show ?thesis by presburger
qed

lemma py_round_int_minus: "py_round_int (- x) = - py_round_int x"
proof (rule py_round_int_unique)
  have c: "of_int (- py_round_int x) - - x = - ((of_int (py_round_int x) :: rat) - x)"
    by simp
  show "\<bar>of_int (- py_round_int x) - - x\<bar> \<le> 1 / 2"
    unfolding c abs_minus_cancel by (rule py_round_int_error)
  show "\<bar>of_int (- py_round_int x) - - x\<bar> = 1 / 2 \<longrightarrow> even (- py_round_int x)"
  proof
    assume "\<bar>of_int (- py_round_int x) - - x\<bar> = 1 / 2"
    then have "\<bar>of_int (py_round_int x) - x\<bar> = 1 / 2" unfolding c abs_minus_cancel .
    then show "even (- py_round_int x)" using py_round_int_tie_even by simp
  qed
qed

subsection \<open>Rounding to a float\<close>

text \<open>
  The exponent is the one the definition describes, and a float is found from a
  certificate: its exponent and its multiple of the spacing.
\<close>

lemma ilog2_bounds:
  assumes "x \<noteq> 0"
  shows "power_int 2 (ilog2 x) \<le> \<bar>x\<bar> \<and> \<bar>x\<bar> < power_int 2 (ilog2 x + 1)"
proof -
  obtain p q where pq: "quotient_of \<bar>x\<bar> = (p, q)" by (cases "quotient_of \<bar>x\<bar>")
  have q0: "0 < q" using pq quotient_of_denom_pos by blast
  have xe: "\<bar>x\<bar> = of_int p / of_int q" using pq quotient_of_div by blast
  have "0 < \<bar>x\<bar>" using assms by simp
  then have p0: "0 < p" using xe q0 by (simp add: zero_less_divide_iff)
  define d where "d = bitlen p - bitlen q"
  have bp: "2 ^ nat (bitlen p - 1) \<le> p" "p < 2 ^ nat (bitlen p)" using bitlen_bounds [OF p0] by auto
  have bq: "2 ^ nat (bitlen q - 1) \<le> q" "q < 2 ^ nat (bitlen q)" using bitlen_bounds [OF q0] by auto
  have lp: "1 \<le> bitlen p" using p0 by (simp add: bitlen_alt_def)
  have lq: "1 \<le> bitlen q" using q0 by (simp add: bitlen_alt_def)
  have low: "(power_int 2 (bitlen n - 1) :: rat) \<le> of_int n"
    if "2 ^ nat (bitlen n - 1) \<le> n" and "1 \<le> bitlen n" for n
  proof -
    have "(of_int (2 ^ nat (bitlen n - 1)) :: rat) \<le> of_int n"
      using that(1) by (simp only: of_int_le_iff)
    moreover have "(power_int 2 (bitlen n - 1) :: rat) = 2 ^ nat (bitlen n - 1)"
      using that(2) by (simp add: power_int_def)
    ultimately show ?thesis by simp
  qed
  have high: "(of_int n :: rat) < power_int 2 (bitlen n)"
    if "n < 2 ^ nat (bitlen n)" and "1 \<le> bitlen n" for n
  proof -
    have "(of_int n :: rat) < of_int (2 ^ nat (bitlen n))"
      using that(1) by (simp only: of_int_less_iff)
    moreover have "(power_int 2 (bitlen n) :: rat) = 2 ^ nat (bitlen n)"
      using that(2) by (simp add: power_int_def)
    ultimately show ?thesis by simp
  qed
  note P1 = low [OF bp(1) lp] and P2 = high [OF bp(2) lp]
    and Q1 = low [OF bq(1) lq] and Q2 = high [OF bq(2) lq]
  have qr: "(0::rat) < of_int q" using q0 by simp
  have pr: "(0::rat) < of_int p" using p0 by simp
  have lo: "(power_int 2 (d - 1) :: rat) < \<bar>x\<bar>"
  proof -
    have "(power_int 2 (d - 1) :: rat) = power_int 2 (bitlen p - 1) / power_int 2 (bitlen q)"
      by (simp add: d_def power_int_diff)
    also have "\<dots> \<le> of_int p / power_int 2 (bitlen q)"
      using P1 by (simp add: divide_right_mono)
    also have "\<dots> < of_int p / of_int q"
      using Q2 pr qr by (simp add: divide_strict_left_mono)
    finally show ?thesis by (simp add: xe)
  qed
  have hi: "\<bar>x\<bar> < (power_int 2 (d + 1) :: rat)"
  proof -
    have "of_int p / of_int q < (power_int 2 (bitlen p) :: rat) / of_int q"
      using P2 qr by (simp add: divide_strict_right_mono)
    also have "\<dots> \<le> power_int 2 (bitlen p) / power_int 2 (bitlen q - 1)"
      using Q1 qr by (intro divide_left_mono) (auto intro: mult_pos_pos)
    also have "\<dots> = power_int 2 (d + 1)"
    proof -
      have e: "d + 1 = bitlen p - (bitlen q - 1)" by (simp add: d_def)
      show ?thesis unfolding e by (rule power_int_diff [symmetric]) simp
    qed
    finally show ?thesis by (simp add: xe)
  qed
  have il: "ilog2 x = (if power_int 2 d \<le> \<bar>x\<bar> then d else d - 1)"
    by (simp add: ilog2_def pq d_def Let_def)
  show ?thesis
  proof (cases "power_int 2 d \<le> \<bar>x\<bar>")
    case True
    then show ?thesis using il hi by simp
  next
    case False
    then show ?thesis using il lo by simp
  qed
qed

lemma pow2_less_imp: "(power_int 2 a :: rat) < power_int 2 b \<Longrightarrow> a < b"
proof (rule ccontr)
  assume l: "(power_int 2 a :: rat) < power_int 2 b" and n: "\<not> a < b"
  then have "(power_int 2 b :: rat) \<le> power_int 2 a" by (intro power_int_increasing) auto
  with l show False by simp
qed

lemma ilog2_unique:
  assumes "x \<noteq> 0" "power_int 2 e \<le> \<bar>x\<bar>" "\<bar>x\<bar> < power_int 2 (e + 1)"
  shows "ilog2 x = e"
proof -
  have b: "power_int 2 (ilog2 x) \<le> \<bar>x\<bar>" "\<bar>x\<bar> < power_int 2 (ilog2 x + 1)"
    using ilog2_bounds [OF assms(1)] by auto
  have "(power_int 2 e :: rat) < power_int 2 (ilog2 x + 1)" using assms(2) b(2) by linarith
  then have 1: "e < ilog2 x + 1" by (rule pow2_less_imp)
  have "(power_int 2 (ilog2 x) :: rat) < power_int 2 (e + 1)" using assms(3) b(1) by linarith
  then have 2: "ilog2 x < e + 1" by (rule pow2_less_imp)
  from 1 2 show ?thesis by simp
qed

lemma nearest_float_near:
  assumes "x \<noteq> 0" and "power_int 2 e \<le> \<bar>x\<bar>" and "\<bar>x\<bar> < power_int 2 (e + 1)"
    and "q = max e (- 1022) - 52"
    and "\<bar>x / power_int 2 q - of_int m\<bar> < 1 / 2"
    and "\<bar>of_int m * power_int 2 q\<bar> < (power_int 2 1024 :: rat)"
  shows "nearest_float x = Fin (of_int m * power_int 2 q)"
proof -
  have e: "ilog2 x = e" using assms(1-3) by (rule ilog2_unique)
  have r: "py_round_int (x / power_int 2 q) = m" using assms(5) by (rule py_round_int_near)
  show ?thesis
    using assms(1,6) r unfolding nearest_float_def Let_def e assms(4) [symmetric] by simp
qed

lemma nearest_float_exact:
  assumes x: "x = of_int m * power_int 2 q" and m: "\<bar>m\<bar> < 2 ^ 53"
    and q: "- 1074 \<le> q" "q \<le> 971"
  shows "nearest_float x = Fin x"
proof (cases "x = 0")
  case True
  then show ?thesis by (simp add: nearest_float_def)
next
  case False
  define e where "e = ilog2 x"
  have b: "power_int 2 e \<le> \<bar>x\<bar>" using ilog2_bounds [OF False] by (simp add: e_def)
  have ax: "\<bar>x\<bar> = of_int \<bar>m\<bar> * power_int 2 q"
    by (simp add: x abs_mult)
  have "(of_int \<bar>m\<bar> :: rat) < of_int (2 ^ 53)" using m by (simp only: of_int_less_iff)
  then have "(of_int \<bar>m\<bar> :: rat) < power_int 2 53" by simp
  then have "\<bar>x\<bar> < power_int 2 53 * power_int 2 q"
    unfolding ax by (intro mult_strict_right_mono) auto
  also have "\<dots> = power_int 2 (q + 53)"
    by (simp add: power_int_add)
  finally have up: "\<bar>x\<bar> < power_int 2 (q + 53)" .
  then have "(power_int 2 e :: rat) < power_int 2 (q + 53)" using b by linarith
  then have eq: "e < q + 53" by (rule pow2_less_imp)
  define q' where "q' = max e (- 1022) - 52"
  have le: "q' \<le> q" using eq q by (simp add: q'_def)
  have "x / power_int 2 q' = of_int m * (power_int 2 q / power_int 2 q')" by (simp add: x)
  also have "power_int 2 q / power_int 2 q' = (power_int 2 (q - q') :: rat)"
    by (simp add: power_int_diff)
  also have "(power_int 2 (q - q') :: rat) = of_int (2 ^ nat (q - q'))"
    using le by (simp add: power_int_def)
  finally have i: "x / power_int 2 q' = of_int (m * 2 ^ nat (q - q'))" by simp
  have r: "of_int (py_round_int (x / power_int 2 q')) * power_int 2 q' = x"
    unfolding i py_round_int_of_int
    using i by (simp add: field_simps)
  have "(power_int 2 (q + 53) :: rat) \<le> power_int 2 1024"
    using q by (intro power_int_increasing) auto
  with up have lt: "\<bar>x\<bar> < power_int 2 1024" by linarith
  show ?thesis
    using False lt unfolding nearest_float_def Let_def e_def [symmetric] q'_def [symmetric] r
    by simp
qed

lemma rounded_multiple_ge:
  assumes "x \<noteq> 0" and "q = max (ilog2 x) (- 1022) - 52" and "power_int 2 k \<le> \<bar>x\<bar>"
    and "q \<le> k"
  shows "(power_int 2 k :: rat) \<le> \<bar>of_int (py_round_int (x / power_int 2 q)) * power_int 2 q\<bar>"
proof -
  have p: "(0::rat) < power_int 2 q" by simp
  have a1: "(power_int 2 (k - q) :: rat) = of_int (2 ^ nat (k - q))"
    using assms(4) by (simp add: power_int_def)
  have a2: "(power_int 2 (k - q) :: rat) = power_int 2 k / power_int 2 q"
    by (simp add: power_int_diff)
  have "power_int 2 k / power_int 2 q \<le> \<bar>x\<bar> / power_int 2 q"
    using assms(3) p by (simp add: divide_right_mono)
  with a1 a2 have a: "of_int (2 ^ nat (k - q)) \<le> \<bar>x\<bar> / power_int 2 q" by simp
  have s: "2 ^ nat (k - q) \<le> \<bar>py_round_int (x / power_int 2 q)\<bar>"
  proof (cases "0 \<le> x")
    case True
    then have "of_int (2 ^ nat (k - q)) \<le> x / power_int 2 q" using a by simp
    then have "2 ^ nat (k - q) \<le> py_round_int (x / power_int 2 q)" by (rule py_round_int_ge)
    then show ?thesis by simp
  next
    case False
    then have "of_int (2 ^ nat (k - q)) \<le> (- x) / power_int 2 q" using a by simp
    then have "2 ^ nat (k - q) \<le> py_round_int ((- x) / power_int 2 q)" by (rule py_round_int_ge)
    then have "2 ^ nat (k - q) \<le> - py_round_int (x / power_int 2 q)"
      using py_round_int_minus [of "x / power_int 2 q"] by simp
    then show ?thesis by simp
  qed
  have "(power_int 2 k :: rat) = of_int (2 ^ nat (k - q)) * power_int 2 q"
    using a1 a2 by (simp add: field_simps)
  also have "\<dots> \<le> of_int \<bar>py_round_int (x / power_int 2 q)\<bar> * power_int 2 q"
    using s by (intro mult_right_mono) (simp_all only: of_int_le_iff, simp)
  finally show ?thesis by (simp add: abs_mult)
qed

lemma nearest_float_overflow:
  assumes "power_int 2 1024 \<le> x"
  shows "nearest_float x = PInf"
proof -
  have pos: "0 < x" using assms zero_less_power_int [of "2::rat" 1024] by linarith
  then have ne: "x \<noteq> 0" by simp
  define q where "q = max (ilog2 x) (- 1022) - 52"
  have "power_int 2 1024 \<le> \<bar>x\<bar>" using assms pos by simp
  moreover have "\<bar>x\<bar> < power_int 2 (ilog2 x + 1)" using ilog2_bounds [OF ne] by simp
  ultimately have "(power_int 2 1024 :: rat) < power_int 2 (ilog2 x + 1)" by linarith
  then have big: "1024 < ilog2 x + 1" by (rule pow2_less_imp)
  have "power_int 2 (ilog2 x) \<le> \<bar>x\<bar>" using ilog2_bounds [OF ne] by simp
  then have "(power_int 2 (ilog2 x) :: rat)
      \<le> \<bar>of_int (py_round_int (x / power_int 2 q)) * power_int 2 q\<bar>"
    using big by (intro rounded_multiple_ge [OF ne]) (simp_all add: q_def)
  moreover have "(power_int 2 1024 :: rat) \<le> power_int 2 (ilog2 x)"
    using big by (intro power_int_increasing) auto
  ultimately have "(power_int 2 1024 :: rat)
      \<le> \<bar>of_int (py_round_int (x / power_int 2 q)) * power_int 2 q\<bar>" by linarith
  then show ?thesis
    using ne pos unfolding nearest_float_def Let_def q_def [symmetric] by simp
qed

lemma nearest_float_underflow:
  assumes "0 < x" and "x < power_int 2 (- 1075)"
  shows "nearest_float x = Fin 0"
proof -
  have ne: "x \<noteq> 0" using assms by simp
  have "power_int 2 (ilog2 x) \<le> \<bar>x\<bar>" using ilog2_bounds [OF ne] by simp
  then have "(power_int 2 (ilog2 x) :: rat) < power_int 2 (- 1075)" using assms by simp
  then have "ilog2 x < - 1075" by (rule pow2_less_imp)
  then have q: "max (ilog2 x) (- 1022) - 52 = - 1074" by simp
  have "x / power_int 2 (- 1074) < power_int 2 (- 1075) / power_int 2 (- 1074)"
    using assms by (intro divide_strict_right_mono) auto
  also have "\<dots> = (1 / 2 :: rat)"
    using power_int_diff [of "2::rat" "- 1075" "- 1074"] by simp
  finally have "x / power_int 2 (- 1074) < 1 / 2" .
  moreover have "0 < x / power_int 2 (- 1074)" using assms by simp
  ultimately have "\<bar>x / power_int 2 (- 1074) - of_int 0\<bar> < 1 / 2" by simp
  then have "py_round_int (x / power_int 2 (- 1074)) = 0" by (rule py_round_int_near)
  then show ?thesis using ne unfolding nearest_float_def Let_def q by simp
qed

lemma nearest_float_positive:
  assumes "power_int 2 (- 1074) \<le> x"
  shows "nearest_float x = PInf \<or> (\<exists>r. nearest_float x = Fin r \<and> power_int 2 (- 1074) \<le> r)"
proof -
  have pos: "0 < x" using assms zero_less_power_int [of "2::rat" "- 1074"] by linarith
  then have ne: "x \<noteq> 0" by simp
  define q where "q = max (ilog2 x) (- 1022) - 52"
  define r where "r = of_int (py_round_int (x / power_int 2 q)) * (power_int 2 q :: rat)"
  have lo: "power_int 2 (- 1074) \<le> \<bar>x\<bar>" using assms pos by simp
  have "- 1074 \<le> q" by (simp add: q_def)
  then have qle: "(power_int 2 (- 1074) :: rat) \<le> power_int 2 q"
    by (intro power_int_increasing) auto
  have "0 \<le> x / power_int 2 q" using pos by simp
  then have "of_int 0 \<le> x / power_int 2 q" by simp
  then have "0 \<le> py_round_int (x / power_int 2 q)" by (rule py_round_int_ge)
  then have r0: "0 \<le> r" by (simp add: r_def)
  have "(power_int 2 q :: rat) \<le> \<bar>r\<bar>"
  proof (cases "- 1022 \<le> ilog2 x")
    case True
    have "power_int 2 (ilog2 x) \<le> \<bar>x\<bar>" using ilog2_bounds [OF ne] by simp
    then have "(power_int 2 (ilog2 x) :: rat) \<le> \<bar>r\<bar>"
      unfolding r_def using True by (intro rounded_multiple_ge [OF ne]) (simp_all add: q_def)
    moreover have "(power_int 2 q :: rat) \<le> power_int 2 (ilog2 x)"
      using True by (intro power_int_increasing) (auto simp: q_def)
    ultimately show ?thesis by linarith
  next
    case False
    then have q: "q = - 1074" by (simp add: q_def)
    have "(power_int 2 (- 1074) :: rat) \<le> \<bar>r\<bar>"
      unfolding r_def
    proof (rule rounded_multiple_ge [OF ne _ lo])
      show "q = max (ilog2 x) (- 1022) - 52" by (simp add: q_def)
      show "q \<le> - 1074" by (simp add: q)
    qed
    then show ?thesis by (simp only: q)
  qed
  with qle r0 have rl: "power_int 2 (- 1074) \<le> r" by linarith
  have "nearest_float x = (if power_int 2 1024 \<le> \<bar>r\<bar> then PInf else Fin r)"
    using ne pos unfolding nearest_float_def Let_def q_def [symmetric] r_def [symmetric] by simp
  then show ?thesis using rl by auto
qed

lemma positive_float_ge:
  assumes "positive_float x"
  shows "power_int 2 (- 1074) \<le> x"
proof (rule ccontr)
  assume n: "\<not> power_int 2 (- 1074) \<le> x"
  have pos: "0 < x" and fx: "nearest_float x = Fin x"
    using assms by (simp_all add: positive_float_def is_float_def)
  then have ne: "x \<noteq> 0" by simp
  define q where "q = max (ilog2 x) (- 1022) - 52"
  define m where "m = py_round_int (x / power_int 2 q)"
  have "nearest_float x =
      (if power_int 2 1024 \<le> \<bar>of_int m * (power_int 2 q :: rat)\<bar> then PInf
       else Fin (of_int m * power_int 2 q))"
    using ne pos unfolding nearest_float_def Let_def q_def [symmetric] m_def [symmetric] by simp
  with fx have xm: "x = of_int m * power_int 2 q" by (auto split: if_splits)
  have "1 \<le> m"
  proof (rule ccontr)
    assume "\<not> 1 \<le> m"
    then have "(of_int m :: rat) \<le> 0" by simp
    then have "of_int m * (power_int 2 q :: rat) \<le> 0"
      by (intro mult_nonpos_nonneg) auto
    with pos xm show False by simp
  qed
  then have "(1::rat) \<le> of_int m" by simp
  then have "(1::rat) * power_int 2 q \<le> of_int m * power_int 2 q"
    by (intro mult_right_mono) auto
  then have "(power_int 2 q :: rat) \<le> x" using xm by simp
  moreover have "(power_int 2 (- 1074) :: rat) \<le> power_int 2 q"
    by (intro power_int_increasing) (auto simp: q_def)
  ultimately show False using n by linarith
qed

lemma float_round_rounded: "rounded_to_decimals n x (float_round x n)"
proof (cases x)
  case (Fin v)
  have "\<bar>of_int (py_round_int (v * 10 ^ n)) - v * 10 ^ n\<bar> = 1 / 2
    \<longrightarrow> even (py_round_int (v * 10 ^ n))"
    using py_round_int_tie_even by blast
  then show ?thesis
    unfolding rounded_to_decimals_def Fin
    using py_round_int_error [of "v * 10 ^ n"] by auto
qed (simp_all add: rounded_to_decimals_def)

lemma rounded_to_decimals_unique:
  assumes "rounded_to_decimals n x y"
  shows "y = float_round x n"
proof (cases x)
  case (Fin v)
  then obtain k :: int where k: "\<bar>of_int k - v * 10 ^ n\<bar> \<le> 1 / 2"
      "\<bar>of_int k - v * 10 ^ n\<bar> = 1 / 2 \<longrightarrow> even k"
      "y = nearest_float (of_int k / 10 ^ n)"
    using assms by (auto simp: rounded_to_decimals_def)
  have "py_round_int (v * 10 ^ n) = k" using k(1,2) by (rule py_round_int_unique)
  then show ?thesis using k(3) Fin by simp
qed (use assms in \<open>simp_all add: rounded_to_decimals_def\<close>)

subsection \<open>DeltaCalculator\<close>

lemma calculate_change_returns: "\<exists>c. calculate_change a b = Inr c"
  by (cases a; cases b) (simp_all add: calculate_change_def float_truediv_def Let_def)

text \<open>
  Claim C2. For all optional floats old and new, \<open>calculate_change\<close> returns absolute 0.0
  and percentage 0.0 whenever old is absent, new is absent or old equals 0; otherwise it
  returns, without raising, absolute = new - old and percentage = (absolute / old) * 100,
  computed in float arithmetic from the difference before it is rounded, both rounded to
  2 decimal places.
\<close>

theorem calculate_change_spec:
  "calculate_change None new_value = Inr \<lparr>absolute = Fin 0, percentage = Fin 0\<rparr>
   \<and> calculate_change old_value None = Inr \<lparr>absolute = Fin 0, percentage = Fin 0\<rparr>
   \<and> calculate_change (Some 0) new_value = Inr \<lparr>absolute = Fin 0, percentage = Fin 0\<rparr>
   \<and> (old \<noteq> 0 \<longrightarrow>
        (\<exists>a p. calculate_change (Some old) (Some new) = Inr \<lparr>absolute = a, percentage = p\<rparr>
           \<and> rounded_to_decimals 2 (float_sub (Fin new) (Fin old)) a
           \<and> rounded_to_decimals 2
               (float_mul (float_div (float_sub (Fin new) (Fin old)) (Fin old)) (Fin 100)) p))"
proof (intro conjI impI)
  show "calculate_change None new_value = Inr \<lparr>absolute = Fin 0, percentage = Fin 0\<rparr>"
    by (simp add: calculate_change_def)
  show "calculate_change old_value None = Inr \<lparr>absolute = Fin 0, percentage = Fin 0\<rparr>"
    by (cases old_value) (simp_all add: calculate_change_def)
  show "calculate_change (Some 0) new_value = Inr \<lparr>absolute = Fin 0, percentage = Fin 0\<rparr>"
    by (cases new_value) (simp_all add: calculate_change_def)
next
  assume "old \<noteq> 0"
  then have "calculate_change (Some old) (Some new) =
      Inr \<lparr>absolute = float_round (float_sub (Fin new) (Fin old)) 2,
           percentage =
             float_round
               (float_mul (float_div (float_sub (Fin new) (Fin old)) (Fin old)) (Fin 100)) 2\<rparr>"
    by (simp add: calculate_change_def float_truediv_def Let_def)
  then show "\<exists>a p. calculate_change (Some old) (Some new) = Inr \<lparr>absolute = a, percentage = p\<rparr>
           \<and> rounded_to_decimals 2 (float_sub (Fin new) (Fin old)) a
           \<and> rounded_to_decimals 2
               (float_mul (float_div (float_sub (Fin new) (Fin old)) (Fin old)) (Fin 100)) p"
    using float_round_rounded by blast
qed

theorem calculate_change_spec_witness:
  "calculate_change (Some 100) (Some 150) = Inr \<lparr>absolute = Fin 50, percentage = Fin 50\<rparr>
   \<and> calculate_change (Some 160) (Some 67) =
       Inr \<lparr>absolute = Fin (- 93), percentage = nearest_float (- (5813 / 100))\<rparr>
   \<and> nearest_float (- (5813 / 100)) = Fin (- (8181070198095217 / 2 ^ 47))
   \<and> calculate_change (Some 0) (Some 50) = Inr \<lparr>absolute = Fin 0, percentage = Fin 0\<rparr>
   \<and> calculate_change None (Some 50) = Inr \<lparr>absolute = Fin 0, percentage = Fin 0\<rparr>"
proof -
  have a1: "nearest_float (- 93) = Fin (- 93)"
    using nearest_float_exact [of "- 93" "- 93" "0"] by simp
  have a2: "nearest_float (- (93 / 160)) = Fin (- (2617717283409101 / 2 ^ 52))"
    using nearest_float_near [of "- (93 / 160)" "- 1" "- 53" "- 5235434566818202"] by simp
  have a3: "nearest_float (- (65442932085227525 / 2 ^ 50)) = Fin (- (8180366510653441 / 2 ^ 47))"
    using nearest_float_near [of "- (65442932085227525 / 2 ^ 50)" "5" "- 47" "- 8180366510653441"]
    by simp
  have a4: "py_round_int (- 9300) = - 9300"
    using py_round_int_near [of "- 9300" "- 9300"] by simp
  have a5: "py_round_int (- (204509162766336025 / 2 ^ 45)) = - 5813"
    using py_round_int_near [of "- (204509162766336025 / 2 ^ 45)" "- 5813"] by simp
  have a6: "nearest_float (- (5813 / 100)) = Fin (- (8181070198095217 / 2 ^ 47))"
    using nearest_float_near [of "- (5813 / 100)" "5" "- 47" "- 8181070198095217"] by simp
  have b1: "nearest_float 50 = Fin 50"
    using nearest_float_exact [of "50" "25" "1"] by simp
  have b2: "nearest_float (1 / 2) = Fin (1 / 2)"
    using nearest_float_exact [of "1 / 2" "1" "- 1"] by simp
  have b3: "py_round_int 5000 = 5000"
    using py_round_int_near [of "5000" "5000"] by simp
  have x: "calculate_change (Some 160) (Some 67) =
       Inr \<lparr>absolute = Fin (- 93), percentage = nearest_float (- (5813 / 100))\<rparr>"
    using a1 a2 a3 a4 a5 a6
    by (simp add: calculate_change_def float_truediv_def float_sub_def Let_def)
  have y: "calculate_change (Some 100) (Some 150) = Inr \<lparr>absolute = Fin 50, percentage = Fin 50\<rparr>"
    using b1 b2 b3
    by (simp add: calculate_change_def float_truediv_def float_sub_def Let_def)
  show ?thesis
    using calculate_change_spec [of "Some 50" "Some 0" 160 67] x y a6
    by simp
qed

subsection \<open>StatSummary\<close>

text \<open>
  Claim C1, as stated, gives for an even count the average of the two middle values,
  rounded, as the median. The source adds the two middle floats before it halves the sum,
  and the sum of two finite floats can be infinite: for the list of two floats \<open>2 ^ 1023\<close>
  the minimum, the maximum and the average are \<open>2 ^ 1023\<close>, as is the average of the two
  middle values, and the median returned is infinite.
\<close>

theorem median_of_large_floats_infinite:
  "calculate_statistics [2 ^ 1023, 2 ^ 1023] =
     Inr \<lparr>min_value = Fin (2 ^ 1023), max_value = Fin (2 ^ 1023), average = Fin (2 ^ 1023),
          median_value = PInf\<rparr>
   \<and> spec_median [2 ^ 1023, 2 ^ 1023] = Fin (2 ^ 1023)"
proof -
  have c1: "nearest_float (2 ^ 1023) = Fin (2 ^ 1023)"
    using nearest_float_exact [of "2 ^ 1023" "2 ^ 52" "971"] by simp
  have c2: "nearest_float (2 ^ 1024) = PInf"
    by (rule nearest_float_overflow) simp
  have c3: "py_round_int (2 ^ 1023 * 100) = 2 ^ 1023 * 100"
    using py_round_int_of_int [of "2 ^ 1023 * 100"] by simp
  have r: "float_round (Fin (2 ^ 1023)) 2 = Fin (2 ^ 1023)"
    using c1 c3 by simp
  have m: "median [2 ^ 1023, 2 ^ 1023] = Inr PInf"
    using c2 by (simp add: median_def float_truediv_def signed_inf_def)
  have a: "mean_float [2 ^ 1023, 2 ^ 1023] = Inr (Fin (2 ^ 1023))"
    using c1 by (simp add: mean_float_def mean_def)
  have s: "spec_median [2 ^ 1023, 2 ^ 1023] = Fin (2 ^ 1023)"
    using c1 r by (simp add: spec_median_def middle_average_def)
  show ?thesis
    using r m a s by (simp add: calculate_statistics_def)
qed

text \<open>
  Claim C1, amended. For every list of finite floats, \<open>calculate_statistics\<close> returns min,
  max, average and median 0.0 when the list is empty, and otherwise returns (without
  raising) the minimum, the maximum, the arithmetic mean as the float nearest to it, and
  the median, each rounded to 2 decimal places; the median is the middle value of the
  sorted list or, when the count is even, the float sum of the two middle values divided
  by 2, which is infinite when that sum is beyond the floats.
\<close>

theorem calculate_statistics_spec:
  "calculate_statistics [] =
     Inr \<lparr>min_value = Fin 0, max_value = Fin 0, average = Fin 0, median_value = Fin 0\<rparr>
   \<and> (values \<noteq> [] \<longrightarrow>
        (\<exists>mn mx av md.
           calculate_statistics values =
             Inr \<lparr>min_value = mn, max_value = mx, average = av, median_value = md\<rparr>
           \<and> rounded_to_decimals 2 (Fin (Min (set values))) mn
           \<and> rounded_to_decimals 2 (Fin (Max (set values))) mx
           \<and> rounded_to_decimals 2
               (nearest_float (sum_list values / of_nat (length values))) av
           \<and> rounded_to_decimals 2
               (if odd (length values) then Fin (sort values ! (length values div 2))
                else float_div
                       (float_add (Fin (sort values ! (length values div 2 - 1)))
                          (Fin (sort values ! (length values div 2))))
                       (Fin 2)) md))"
proof (intro conjI impI)
  show "calculate_statistics [] =
     Inr \<lparr>min_value = Fin 0, max_value = Fin 0, average = Fin 0, median_value = Fin 0\<rparr>"
    by (simp add: calculate_statistics_def)
next
  assume ne: "values \<noteq> []"
  then have len: "0 < length values" by simp
  let ?md = "if odd (length values) then Fin (sort values ! (length values div 2))
             else float_div
                    (float_add (Fin (sort values ! (length values div 2 - 1)))
                       (Fin (sort values ! (length values div 2))))
                    (Fin 2)"
  have m: "mean_float values = Inr (nearest_float (sum_list values / of_nat (length values)))"
    using len by (simp add: mean_float_def mean_def Let_def)
  have "sort values \<noteq> []"
    using ne by (metis length_0_conv length_sort)
  then have md: "median values = Inr ?md"
    using len by (simp add: median_def Let_def odd_iff_mod_2_eq_one float_truediv_def)
  have "calculate_statistics values =
          Inr \<lparr>min_value = float_round (Fin (Min (set values))) 2,
               max_value = float_round (Fin (Max (set values))) 2,
               average = float_round (nearest_float (sum_list values / of_nat (length values))) 2,
               median_value = float_round ?md 2\<rparr>"
    using ne by (simp add: calculate_statistics_def py_min_Min py_max_Max m md)
  then show "\<exists>mn mx av md.
           calculate_statistics values =
             Inr \<lparr>min_value = mn, max_value = mx, average = av, median_value = md\<rparr>
           \<and> rounded_to_decimals 2 (Fin (Min (set values))) mn
           \<and> rounded_to_decimals 2 (Fin (Max (set values))) mx
           \<and> rounded_to_decimals 2
               (nearest_float (sum_list values / of_nat (length values))) av
           \<and> rounded_to_decimals 2 ?md md"
    using float_round_rounded by blast
qed

theorem calculate_statistics_spec_witness:
  "calculate_statistics [] =
     Inr \<lparr>min_value = Fin 0, max_value = Fin 0, average = Fin 0, median_value = Fin 0\<rparr>
   \<and> calculate_statistics [1, 2, 3, 4] =
       Inr \<lparr>min_value = Fin 1, max_value = Fin 4, average = Fin (5 / 2),
            median_value = Fin (5 / 2)\<rparr>
   \<and> calculate_statistics [1 / 8, 0, 0, 0, 0] =
       Inr \<lparr>min_value = Fin 0, max_value = nearest_float (12 / 100),
            average = nearest_float (3 / 100), median_value = Fin 0\<rparr>
   \<and> nearest_float (12 / 100) = Fin (1080863910568919 / 2 ^ 53)
   \<and> nearest_float (3 / 100) = Fin (1080863910568919 / 2 ^ 55)"
proof -
  have m1: "nearest_float (1 / 40) = Fin (3602879701896397 / 2 ^ 57)"
    using nearest_float_near [of "1 / 40" "- 6" "- 58" "7205759403792794"] by simp
  have m2: "py_round_int (90071992547409925 / 2 ^ 55) = 3"
    using py_round_int_near [of "90071992547409925 / 2 ^ 55" "3"] by simp
  have m3: "nearest_float (3 / 100) = Fin (1080863910568919 / 2 ^ 55)"
    using nearest_float_near [of "3 / 100" "- 6" "- 58" "8646911284551352"] by simp
  have m4: "py_round_int (25 / 2) = 12"
    by (rule py_round_int_unique) simp_all
  have m5: "nearest_float (3 / 25) = Fin (1080863910568919 / 2 ^ 53)"
    using nearest_float_near [of "3 / 25" "- 4" "- 56" "8646911284551352"] by simp
  have d1: "nearest_float (5 / 2) = Fin (5 / 2)"
    using nearest_float_exact [of "5 / 2" "5" "- 1"] by simp
  have d2: "nearest_float 1 = Fin 1"
    using nearest_float_exact [of "1" "1" "0"] by simp
  have d3: "nearest_float 4 = Fin 4"
    using nearest_float_exact [of "4" "1" "2"] by simp
  have d4: "nearest_float 5 = Fin 5"
    using nearest_float_exact [of "5" "5" "0"] by simp
  have d5: "py_round_int 100 = 100" "py_round_int 400 = 400" "py_round_int 250 = 250"
    "py_round_int 0 = 0"
    using py_round_int_of_int [of 100] py_round_int_of_int [of 400] py_round_int_of_int [of 250]
      py_round_int_of_int [of 0]
    by simp_all
  have x: "calculate_statistics [1, 2, 3, 4] =
       Inr \<lparr>min_value = Fin 1, max_value = Fin 4, average = Fin (5 / 2),
            median_value = Fin (5 / 2)\<rparr>"
    using d1 d2 d3 d4 d5
    by (simp add: calculate_statistics_def mean_float_def mean_def median_def float_truediv_def)
  have y: "calculate_statistics [1 / 8, 0, 0, 0, 0] =
       Inr \<lparr>min_value = Fin 0, max_value = nearest_float (12 / 100),
            average = nearest_float (3 / 100), median_value = Fin 0\<rparr>"
    using m1 m2 m4 d5
    by (simp add: calculate_statistics_def mean_float_def mean_def median_def float_truediv_def
        nearest_float_def [of 0])
  show ?thesis
    using calculate_statistics_spec [of "[1, 2, 3, 4]"] x y m3 m5
    by simp
qed

subsection \<open>CalorieEstimator\<close>

text \<open>
  Claim C3, as stated, speaks of a 19-entry MET table and of a function that always
  returns a value. The table of the source has 18 entries, the 18 the claim lists, and
  \<open>round\<close> raises \<open>OverflowError\<close> when the product is infinite: so it is for running,
  60 minutes and the weight \<open>2 ^ 1023\<close>.
\<close>

theorem met_table_size_and_overflow:
  "length MET_VALUES \<noteq> 19
   \<and> calculate_calories_burned ascii_lower (code_points ''running'') 60 (2 ^ 1023)
       = Inl OverflowError"
proof -
  have l98: "nearest_float (49 / 5) = Fin (2758454771764429 / 2 ^ 48)"
    using nearest_float_near [of "49 / 5" "3" "- 49" "5516909543528858"] by simp
  have h: "nearest_float 1 = Fin 1"
    using nearest_float_exact [of "1" "1" "0"] by simp
  have o: "nearest_float (2758454771764429 / 2 ^ 48 * 2 ^ 1023) = PInf"
    by (rule nearest_float_overflow) simp
  have k: "map_of MET_VALUES
      (replace_char (of_char CHR '' '') (code_points ''_'')
         (ascii_lower (code_points ''running''))) = Some (float_literal (98 / 10))"
    by (simp add: MET_VALUES_def code_points_def ascii_lower_def replace_char_def)
  have "calculate_calories_burned ascii_lower (code_points ''running'') 60 (2 ^ 1023)
       = Inl OverflowError"
    unfolding calculate_calories_burned_def k
    using l98 h o by (simp add: float_literal_def int_truediv_def signed_inf_def)
  then show ?thesis
    by (simp add: MET_VALUES_def)
qed

text \<open>
  Claim C3, amended. For every activity-type string, duration in minutes and body weight,
  \<open>calculate_calories_burned\<close> lowercases the activity type and replaces spaces with
  underscores, looks the result up in the 18-entry MET table (running 9.8, jogging 7.0,
  walking 3.5, cycling 7.5, swimming 8.0, strength\_training 6.0, weightlifting 6.0,
  yoga 3.0, pilates 3.5, hiit 10.0, dancing 5.0, basketball 6.5, soccer 7.0, tennis 7.3,
  hiking 6.0, elliptical 7.0, rowing 8.5, climbing 8.0) with MET 5.0 for an activity that
  is not in the table, and computes MET * weight\_kg * (duration\_minutes / 60) in float
  arithmetic; when that product is finite it returns the integer nearest to it, a tie
  going to the even integer, and when it is infinite or NaN, or the duration is beyond
  the floats, it raises \<open>OverflowError\<close> or \<open>ValueError\<close>; estimate("running", 30, 70) =
  343 and estimate("unknown\_sport", 60, 70) = 350.
\<close>

theorem calculate_calories_burned_spec:
  "MET_VALUES =
     [(code_points ''running'', float_literal (98 / 10)),
      (code_points ''jogging'', float_literal 7),
      (code_points ''walking'', float_literal (35 / 10)),
      (code_points ''cycling'', float_literal (75 / 10)),
      (code_points ''swimming'', float_literal 8),
      (code_points ''strength_training'', float_literal 6),
      (code_points ''weightlifting'', float_literal 6),
      (code_points ''yoga'', float_literal 3),
      (code_points ''pilates'', float_literal (35 / 10)),
      (code_points ''hiit'', float_literal 10),
      (code_points ''dancing'', float_literal 5),
      (code_points ''basketball'', float_literal (65 / 10)),
      (code_points ''soccer'', float_literal 7),
      (code_points ''tennis'', float_literal (73 / 10)),
      (code_points ''hiking'', float_literal 6),
      (code_points ''elliptical'', float_literal 7),
      (code_points ''rowing'', float_literal (85 / 10)),
      (code_points ''climbing'', float_literal 8)]
   \<and> length MET_VALUES = 18
   \<and> distinct (map fst MET_VALUES)
   \<and> (\<exists>met product.
         met = (case map_of MET_VALUES
                       (replace_char (of_char CHR '' '') (code_points ''_'')
                          (str_lower workout_type)) of
                  Some m \<Rightarrow> m
                | None \<Rightarrow> float_literal 5)
         \<and> (case int_truediv duration_minutes 60 of
               Inl e \<Rightarrow>
                 calculate_calories_burned str_lower workout_type duration_minutes weight_kg
                   = Inl OverflowError
             | Inr hours \<Rightarrow>
                 product = float_mul (float_mul (Fin met) (Fin weight_kg)) hours
                 \<and> (case product of
                       Fin c \<Rightarrow>
                         calculate_calories_burned str_lower workout_type duration_minutes
                             weight_kg = Inr (py_round_int c)
                     | NaN \<Rightarrow>
                         calculate_calories_burned str_lower workout_type duration_minutes
                             weight_kg = Inl ValueError
                     | _ \<Rightarrow>
                         calculate_calories_burned str_lower workout_type duration_minutes
                             weight_kg = Inl OverflowError)))
   \<and> (str_lower (code_points ''running'') = code_points ''running'' \<longrightarrow>
        calculate_calories_burned str_lower (code_points ''running'') 30 70 = Inr 343)
   \<and> (str_lower (code_points ''unknown_sport'') = code_points ''unknown_sport'' \<longrightarrow>
        calculate_calories_burned str_lower (code_points ''unknown_sport'') 60 70 = Inr 350)"
proof (intro conjI impI)
  show "\<exists>met product.
         met = (case map_of MET_VALUES
                       (replace_char (of_char CHR '' '') (code_points ''_'')
                          (str_lower workout_type)) of
                  Some m \<Rightarrow> m
                | None \<Rightarrow> float_literal 5)
         \<and> (case int_truediv duration_minutes 60 of
               Inl e \<Rightarrow>
                 calculate_calories_burned str_lower workout_type duration_minutes weight_kg
                   = Inl OverflowError
             | Inr hours \<Rightarrow>
                 product = float_mul (float_mul (Fin met) (Fin weight_kg)) hours
                 \<and> (case product of
                       Fin c \<Rightarrow>
                         calculate_calories_burned str_lower workout_type duration_minutes
                             weight_kg = Inr (py_round_int c)
                     | NaN \<Rightarrow>
                         calculate_calories_burned str_lower workout_type duration_minutes
                             weight_kg = Inl ValueError
                     | _ \<Rightarrow>
                         calculate_calories_burned str_lower workout_type duration_minutes
                             weight_kg = Inl OverflowError))"
  proof -
    define met where "met = (case map_of MET_VALUES
                       (replace_char (of_char CHR '' '') (code_points ''_'')
                          (str_lower workout_type)) of
                  Some m \<Rightarrow> m
                | None \<Rightarrow> float_literal 5)"
    have e: "int_truediv duration_minutes 60 = Inl err \<Longrightarrow> err = OverflowError" for err
      by (auto simp: int_truediv_def split: pyfloat.splits)
    show ?thesis
    proof (cases "int_truediv duration_minutes 60")
      case (Inl err)
      then show ?thesis
        using e [OF Inl] by (simp add: calculate_calories_burned_def)
    next
      case (Inr hours)
      show ?thesis
        using Inr
        by (cases "float_mul (float_mul (Fin met) (Fin weight_kg)) hours")
          (simp_all add: calculate_calories_burned_def met_def)
    qed
  qed
next
  assume l: "str_lower (code_points ''running'') = code_points ''running''"
  have l98: "nearest_float (49 / 5) = Fin (2758454771764429 / 2 ^ 48)"
    using nearest_float_near [of "49 / 5" "3" "- 49" "5516909543528858"] by simp
  have h30: "nearest_float (1 / 2) = Fin (1 / 2)"
    using nearest_float_exact [of "1 / 2" "1" "- 1"] by simp
  have p1: "nearest_float (96545917011755015 / 2 ^ 47) = Fin 686"
    using nearest_float_near [of "96545917011755015 / 2 ^ 47" "9" "- 43" "6034119813234688"]
    by simp
  have p2: "nearest_float 343 = Fin 343"
    using nearest_float_exact [of "343" "343" "0"] by simp
  have r1: "py_round_int 343 = 343"
    using py_round_int_of_int [of 343] by simp
  have k: "map_of MET_VALUES
      (replace_char (of_char CHR '' '') (code_points ''_'') (code_points ''running''))
        = Some (float_literal (98 / 10))"
    by (simp add: MET_VALUES_def code_points_def replace_char_def)
  show "calculate_calories_burned str_lower (code_points ''running'') 30 70 = Inr 343"
    unfolding calculate_calories_burned_def l k
    using l98 h30 p1 p2 r1 by (simp add: float_literal_def int_truediv_def)
next
  assume l: "str_lower (code_points ''unknown_sport'') = code_points ''unknown_sport''"
  have l5: "nearest_float 5 = Fin 5"
    using nearest_float_exact [of "5" "5" "0"] by simp
  have h60: "nearest_float 1 = Fin 1"
    using nearest_float_exact [of "1" "1" "0"] by simp
  have u1: "nearest_float 350 = Fin 350"
    using nearest_float_exact [of "350" "175" "1"] by simp
  have r3: "py_round_int 350 = 350"
    using py_round_int_of_int [of 350] by simp
  have k: "map_of MET_VALUES
      (replace_char (of_char CHR '' '') (code_points ''_'') (code_points ''unknown_sport''))
        = None"
    by (simp add: MET_VALUES_def code_points_def replace_char_def)
  show "calculate_calories_burned str_lower (code_points ''unknown_sport'') 60 70 = Inr 350"
    unfolding calculate_calories_burned_def l k
    using l5 h60 u1 r3 by (simp add: float_literal_def int_truediv_def)
qed (simp_all add: MET_VALUES_def code_points_def)

theorem calculate_calories_burned_spec_witness:
  "ascii_lower (code_points ''running'') = code_points ''running''
   \<and> calculate_calories_burned ascii_lower (code_points ''running'') 30 70 = Inr 343
   \<and> ascii_lower (code_points ''unknown_sport'') = code_points ''unknown_sport''
   \<and> calculate_calories_burned ascii_lower (code_points ''unknown_sport'') 60 70 = Inr 350
   \<and> calculate_calories_burned ascii_lower (code_points ''running'') 30 45 = Inr 221
   \<and> calculate_calories_burned ascii_lower (code_points ''Strength Training'') 45 80 = Inr 360"
proof -
  have a: "ascii_lower (code_points ''running'') = code_points ''running''"
    by (simp add: ascii_lower_def code_points_def)
  have b: "ascii_lower (code_points ''unknown_sport'') = code_points ''unknown_sport''"
    by (simp add: ascii_lower_def code_points_def)
  have l98: "nearest_float (49 / 5) = Fin (2758454771764429 / 2 ^ 48)"
    using nearest_float_near [of "49 / 5" "3" "- 49" "5516909543528858"] by simp
  have h30: "nearest_float (1 / 2) = Fin (1 / 2)"
    using nearest_float_exact [of "1 / 2" "1" "- 1"] by simp
  have q1: "nearest_float (124130464729399305 / 2 ^ 48) = Fin (7758154045587457 / 2 ^ 44)"
    using nearest_float_near [of "124130464729399305 / 2 ^ 48" "8" "- 44" "7758154045587457"]
    by simp
  have q2: "nearest_float (7758154045587457 / 2 ^ 45) = Fin (7758154045587457 / 2 ^ 45)"
    using nearest_float_exact [of "7758154045587457 / 2 ^ 45" "7758154045587457" "- 45"] by simp
  have r2: "py_round_int (7758154045587457 / 2 ^ 45) = 221"
    using py_round_int_near [of "7758154045587457 / 2 ^ 45" "221"] by simp
  have l6: "nearest_float 6 = Fin 6"
    using nearest_float_exact [of "6" "3" "1"] by simp
  have h45: "nearest_float (3 / 4) = Fin (3 / 4)"
    using nearest_float_exact [of "3 / 4" "3" "- 2"] by simp
  have s1: "nearest_float 480 = Fin 480"
    using nearest_float_exact [of "480" "15" "5"] by simp
  have s2: "nearest_float 360 = Fin 360"
    using nearest_float_exact [of "360" "45" "3"] by simp
  have r4: "py_round_int 360 = 360"
    using py_round_int_of_int [of 360] by simp
  have k1: "map_of MET_VALUES
      (replace_char (of_char CHR '' '') (code_points ''_'')
         (ascii_lower (code_points ''running''))) = Some (float_literal (98 / 10))"
    by (simp add: MET_VALUES_def code_points_def ascii_lower_def replace_char_def)
  have k2: "map_of MET_VALUES
      (replace_char (of_char CHR '' '') (code_points ''_'')
         (ascii_lower (code_points ''Strength Training''))) = Some (float_literal 6)"
    by (simp add: MET_VALUES_def code_points_def ascii_lower_def replace_char_def)
  have x: "calculate_calories_burned ascii_lower (code_points ''running'') 30 45 = Inr 221"
    unfolding calculate_calories_burned_def k1
    using l98 h30 q1 q2 r2 by (simp add: float_literal_def int_truediv_def)
  have y: "calculate_calories_burned ascii_lower (code_points ''Strength Training'') 45 80
      = Inr 360"
    unfolding calculate_calories_burned_def k2
    using l6 h45 s1 s2 r4 by (simp add: float_literal_def int_truediv_def)
  show ?thesis
    using a b x y calculate_calories_burned_spec [of ascii_lower]
    by simp
qed

subsection \<open>Body mass index\<close>

text \<open>
  What the guard of \<open>calculate_bmi\<close> does, whatever the library's \<open>pow\<close> returns: a weight
  or height that is not positive gives 0.0 and nothing is divided; for positive inputs
  the function raises \<open>ZeroDivisionError\<close> exactly when the square of the height in
  metres is zero, passes on the \<open>OverflowError\<close> of the squaring, and otherwise returns the
  quotient rounded to 1 decimal place.
\<close>

lemma calculate_bmi_guard:
  "weight_kg \<le> 0 \<or> height_cm \<le> 0 \<Longrightarrow> calculate_bmi float_pow2 weight_kg height_cm = Inr (Fin 0)"
  by (simp add: calculate_bmi_def)

lemma calculate_bmi_positive:
  assumes "0 < weight_kg" and "0 < height_cm"
  shows "calculate_bmi float_pow2 weight_kg height_cm =
           (case float_pow2 (nearest_float (height_cm / 100)) of
              Inl e \<Rightarrow> Inl e
            | Inr square \<Rightarrow>
                if square = Fin 0 then Inl ZeroDivisionError
                else Inr (float_round (float_div (Fin weight_kg) square) 1))"
  using assms
  by (simp add: calculate_bmi_def float_truediv_def split: sum.splits)

lemma calculate_bmi_examples:
  "calculate_bmi correctly_rounded_square 0 180 = Inr (Fin 0)
   \<and> calculate_bmi correctly_rounded_square 70 (- 5) = Inr (Fin 0)
   \<and> calculate_bmi correctly_rounded_square 48 160 = Inr (nearest_float (187 / 10))
   \<and> calculate_bmi correctly_rounded_square 70 175 = Inr (nearest_float (229 / 10))"
proof -
  have b1: "nearest_float (8 / 5) = Fin (3602879701896397 / 2 ^ 51)"
    using nearest_float_near [of "8 / 5" "0" "- 52" "7205759403792794"] by simp
  have b2: "nearest_float (12980742146337070512478121581609 / 2 ^ 102)
      = Fin (1441151880758559 / 2 ^ 49)"
    using nearest_float_near [of "12980742146337070512478121581609 / 2 ^ 102" "1" "- 51"
        "5764607523034236"]
    by simp
  have b3: "nearest_float (9007199254740992 / 480383960252853) = Fin (5277655813324799 / 2 ^ 48)"
    using nearest_float_near [of "9007199254740992 / 480383960252853" "4" "- 48"
        "5277655813324799"]
    by simp
  have b4: "py_round_int (26388279066623995 / 2 ^ 47) = 187"
    using py_round_int_near [of "26388279066623995 / 2 ^ 47" "187"] by simp
  have e1: "nearest_float (7 / 4) = Fin (7 / 4)"
    using nearest_float_exact [of "7 / 4" "7" "- 2"] by simp
  have e2: "nearest_float (49 / 16) = Fin (49 / 16)"
    using nearest_float_exact [of "49 / 16" "49" "- 4"] by simp
  have e3: "nearest_float (160 / 7) = Fin (6433713753386423 / 2 ^ 48)"
    using nearest_float_near [of "160 / 7" "4" "- 48" "6433713753386423"] by simp
  have e4: "py_round_int (32168568766932115 / 2 ^ 47) = 229"
    using py_round_int_near [of "32168568766932115 / 2 ^ 47" "229"] by simp
  have x: "calculate_bmi correctly_rounded_square 48 160 = Inr (nearest_float (187 / 10))"
    using b1 b2 b3 b4
    by (simp add: calculate_bmi_def float_truediv_def correctly_rounded_square_def)
  have y: "calculate_bmi correctly_rounded_square 70 175 = Inr (nearest_float (229 / 10))"
    using e1 e2 e3 e4
    by (simp add: calculate_bmi_def float_truediv_def correctly_rounded_square_def)
  show ?thesis
    using x y by (simp add: calculate_bmi_def)
qed

text \<open>
  Claim C10 says that the guard keeps the division from ever having a zero divisor and
  that positive inputs give the rounded quotient. The guard tests the height, not the
  square of the height in metres by which the source divides, and the square of a small
  positive float is zero: for the weight 70.0 and the height \<open>2 ^ -600\<close> the guard is
  passed, \<open>height_m ** 2\<close> is 0.0 and the division raises \<open>ZeroDivisionError\<close>.
\<close>

theorem calculate_bmi_zero_divisor:
  "calculate_bmi correctly_rounded_square 70 (1 / 2 ^ 600) = Inl ZeroDivisionError"
proof -
  have z1: "nearest_float (1 / 2 ^ 600 / 100) = Fin (5764607523034235 / 2 ^ 659)"
    using nearest_float_near [of "1 / 2 ^ 600 / 100" "- 607" "- 659" "5764607523034235"] by simp
  have z2: "nearest_float (5764607523034235 / 2 ^ 659 * (5764607523034235 / 2 ^ 659)) = Fin 0"
    by (rule nearest_float_underflow) simp_all
  show ?thesis
    using z1 z2
    by (simp add: calculate_bmi_def float_truediv_def correctly_rounded_square_def)
qed

subsection \<open>WorkoutStats\<close>

lemma py_sum_fields:
  "\<forall>r\<in>set rs. f r \<noteq> Null \<Longrightarrow>
   py_sum (map (\<lambda>r. get_default (f r) 0) rs) start = Inr (start + (\<Sum>r\<leftarrow>rs. field_or 0 (f r)))"
proof (induction rs arbitrary: start)
  case Nil
  then show ?case by simp
next
  case (Cons r rs)
  then show ?case
    by (cases "f r") (simp_all add: get_default_def field_or_def)
qed

lemma truthy_positive_distances:
  assumes "\<forall>r\<in>set rs. \<forall>d. distance r = Some d \<longrightarrow> 0 < d"
  shows "List.map_filter (\<lambda>r. if_truthy (distance r)) rs = present_distances rs"
  using assms
proof (induction rs)
  case Nil
  then show ?case by (simp add: present_distances_def List.map_filter_simps)
next
  case (Cons r rs)
  then show ?case
    by (cases "distance r")
      (auto simp: present_distances_def List.map_filter_simps if_truthy_def)
qed

lemma set_present_distances: "set (present_distances rs) = {d. \<exists>r\<in>set rs. distance r = Some d}"
  by (induction rs) (auto simp: present_distances_def List.map_filter_simps split: option.splits)

text \<open>Adding positive floats from the left never gives zero.\<close>

lemma left_sum_step:
  assumes "positive_float d" and "a = PInf \<or> (\<exists>s. a = Fin s \<and> 0 \<le> s)"
  shows "float_add a (Fin d) = PInf
         \<or> (\<exists>s. float_add a (Fin d) = Fin s \<and> power_int 2 (- 1074) \<le> s)"
proof -
  have d: "power_int 2 (- 1074) \<le> d" using assms(1) by (rule positive_float_ge)
  from assms(2) show ?thesis
  proof
    assume "a = PInf"
    then show ?thesis by simp
  next
    assume "\<exists>s. a = Fin s \<and> 0 \<le> s"
    then obtain s where s: "a = Fin s" "0 \<le> s" by blast
    have "power_int 2 (- 1074) \<le> s + d" using d s(2) by linarith
    then show ?thesis
      unfolding s(1) float_add.simps by (rule nearest_float_positive)
  qed
qed

lemma fold_left_sum_positive:
  assumes "\<forall>d\<in>set ds. positive_float d" and "ds \<noteq> []"
    and "a = PInf \<or> (\<exists>s. a = Fin s \<and> 0 \<le> s)"
  shows "fold (\<lambda>x result. float_add result (Fin x)) ds a = PInf
         \<or> (\<exists>s. fold (\<lambda>x result. float_add result (Fin x)) ds a = Fin s
                \<and> power_int 2 (- 1074) \<le> s)"
  using assms
proof (induction ds arbitrary: a)
  case Nil
  then show ?case by simp
next
  case (Cons d ds)
  have st: "float_add a (Fin d) = PInf
         \<or> (\<exists>s. float_add a (Fin d) = Fin s \<and> power_int 2 (- 1074) \<le> s)"
    using Cons.prems(1,3) by (intro left_sum_step) auto
  show ?case
  proof (cases "ds = []")
    case True
    then show ?thesis using st by simp
  next
    case False
    have p: "(0::rat) \<le> power_int 2 (- 1074)" by (rule zero_le_power_int) simp
    have "float_add a (Fin d) = PInf \<or> (\<exists>s. float_add a (Fin d) = Fin s \<and> 0 \<le> s)"
      using st p by (metis order_trans)
    then show ?thesis
      using Cons.IH [of "float_add a (Fin d)"] Cons.prems(1) False by simp
  qed
qed

lemma left_sum_nonzero: "nonzero_on_positive left_sum"
  unfolding nonzero_on_positive_def
proof (intro allI impI)
  fix ds :: "rat list"
  assume a: "ds \<noteq> [] \<and> (\<forall>d\<in>set ds. positive_float d)"
  have p: "(0::rat) < power_int 2 (- 1074)" by (rule zero_less_power_int) simp
  have "left_sum ds = PInf \<or> (\<exists>s. left_sum ds = Fin s \<and> power_int 2 (- 1074) \<le> s)"
    unfolding left_sum_def using a by (intro fold_left_sum_positive) auto
  then show "left_sum ds \<noteq> Fin 0"
    using p by (metis not_le pyfloat.distinct(1) pyfloat.inject)
qed

text \<open>
  Claim C8. For every list of workout records in which \<open>duration\<close> and \<open>caloriesBurned\<close>
  are numbers wherever the key is there and every distance is a positive float, as the
  workout model of the repository admits them (\<open>distance\<close> is declared greater than 0),
  \<open>calculate_workout_stats\<close> returns total\_workouts = record count, total\_duration =
  sum of duration, total\_calories = sum of caloriesBurned with missing values treated as
  0, and total\_distance = the sum of the present distance values rounded to 2 decimals,
  or absent when no distance is present; on empty input it returns 0, 0, 0 and no
  distance. The sum of the distances is the one the library's \<open>sum\<close> returns, of which
  the theorem uses that it is not zero for positive floats.
\<close>

theorem calculate_workout_stats_spec:
  assumes "\<forall>r\<in>set records. duration r \<noteq> Null \<and> caloriesBurned r \<noteq> Null"
    and "\<forall>r\<in>set records. \<forall>d. distance r = Some d \<longrightarrow> positive_float d"
    and "nonzero_on_positive float_sum"
  shows "(\<exists>t. calculate_workout_stats float_sum records =
             Inr \<lparr>total_workouts = length records,
                  total_duration = (\<Sum>r\<leftarrow>records. field_or 0 (duration r)),
                  total_calories = (\<Sum>r\<leftarrow>records. field_or 0 (caloriesBurned r)),
                  total_distance = t\<rparr>
             \<and> (present_distances records = [] \<longrightarrow> t = None)
             \<and> (present_distances records \<noteq> [] \<longrightarrow>
                  (\<exists>y. t = Some y
                     \<and> rounded_to_decimals 2 (float_sum (present_distances records)) y)))
         \<and> calculate_workout_stats float_sum [] =
             Inr \<lparr>total_workouts = 0, total_duration = 0, total_calories = 0,
                  total_distance = None\<rparr>"
proof (intro conjI)
  show "calculate_workout_stats float_sum [] =
             Inr \<lparr>total_workouts = 0, total_duration = 0, total_calories = 0,
                  total_distance = None\<rparr>"
    by (simp add: calculate_workout_stats_def)
next
  have d: "py_sum (map (\<lambda>r. get_default (duration r) 0) records) 0
             = Inr (\<Sum>r\<leftarrow>records. field_or 0 (duration r))"
    using assms(1) py_sum_fields [of records duration 0] by simp
  have c: "py_sum (map (\<lambda>r. get_default (caloriesBurned r) 0) records) 0
             = Inr (\<Sum>r\<leftarrow>records. field_or 0 (caloriesBurned r))"
    using assms(1) py_sum_fields [of records caloriesBurned 0] by simp
  have pos: "\<forall>r\<in>set records. \<forall>d. distance r = Some d \<longrightarrow> 0 < d"
    using assms(2) by (simp add: positive_float_def)
  have ds: "List.map_filter (\<lambda>r. if_truthy (distance r)) records = present_distances records"
    using pos by (rule truthy_positive_distances)
  let ?t = "if present_distances records = [] then None
            else Some (float_round (float_sum (present_distances records)) 2)"
  have nz: "float_sum (present_distances records) \<noteq> Fin 0"
    if "present_distances records \<noteq> []"
  proof -
    have "\<forall>d\<in>set (present_distances records). positive_float d"
      using assms(2) by (auto simp: set_present_distances)
    with that assms(3) show ?thesis
      unfolding nonzero_on_positive_def by blast
  qed
  have main: "calculate_workout_stats float_sum records =
             Inr \<lparr>total_workouts = length records,
                  total_duration = (\<Sum>r\<leftarrow>records. field_or 0 (duration r)),
                  total_calories = (\<Sum>r\<leftarrow>records. field_or 0 (caloriesBurned r)),
                  total_distance = ?t\<rparr>"
  proof (cases "records = []")
    case True
    then show ?thesis
      by (simp add: calculate_workout_stats_def present_distances_def List.map_filter_simps)
  next
    case False
    then show ?thesis
      using d c nz by (simp add: calculate_workout_stats_def ds Let_def)
  qed
  show "\<exists>t. calculate_workout_stats float_sum records =
             Inr \<lparr>total_workouts = length records,
                  total_duration = (\<Sum>r\<leftarrow>records. field_or 0 (duration r)),
                  total_calories = (\<Sum>r\<leftarrow>records. field_or 0 (caloriesBurned r)),
                  total_distance = t\<rparr>
             \<and> (present_distances records = [] \<longrightarrow> t = None)
             \<and> (present_distances records \<noteq> [] \<longrightarrow>
                  (\<exists>y. t = Some y
                     \<and> rounded_to_decimals 2 (float_sum (present_distances records)) y))"
    using main float_round_rounded [of 2 "float_sum (present_distances records)"]
    by (intro exI [of _ ?t]) simp
qed

theorem calculate_workout_stats_spec_witness:
  "calculate_workout_stats left_sum workout_without_distance =
     Inr \<lparr>total_workouts = 1, total_duration = 1800, total_calories = 200,
          total_distance = None\<rparr>
   \<and> present_distances example_workouts = [float_literal (5 / 1000), 1]
   \<and> left_sum [float_literal (5 / 1000), 1] = Fin (1131529406376837 / 2 ^ 50)
   \<and> calculate_workout_stats left_sum example_workouts =
       Inr \<lparr>total_workouts = 2, total_duration = 2400, total_calories = 90,
            total_distance = Some (Fin 1)\<rparr>"
proof -
  have d1: "nearest_float (1 / 200) = Fin (5764607523034235 / 2 ^ 60)"
    using nearest_float_near [of "1 / 200" "- 8" "- 60" "5764607523034235"] by simp
  have d2: "nearest_float (5764607523034235 / 2 ^ 60) = Fin (5764607523034235 / 2 ^ 60)"
    using nearest_float_exact [of "5764607523034235 / 2 ^ 60" "5764607523034235" "- 60"] by simp
  have d3: "nearest_float (1158686112129881211 / 2 ^ 60) = Fin (1131529406376837 / 2 ^ 50)"
    using nearest_float_near [of "1158686112129881211 / 2 ^ 60" "0" "- 52" "4526117625507348"]
    by simp
  have d4: "py_round_int (28288235159420925 / 2 ^ 48) = 100"
    using py_round_int_near [of "28288235159420925 / 2 ^ 48" "100"] by simp
  have d5: "nearest_float 1 = Fin 1"
    using nearest_float_exact [of "1" "1" "0"] by simp
  have lit: "float_literal (1 / 200) = 5764607523034235 / 2 ^ 60"
    using d1 by (simp add: float_literal_def)
  have a: "\<forall>r\<in>set workout_without_distance. duration r \<noteq> Null \<and> caloriesBurned r \<noteq> Null"
    by (simp add: workout_without_distance_def)
  have a': "\<forall>r\<in>set workout_without_distance. \<forall>d. distance r = Some d \<longrightarrow> positive_float d"
    by (simp add: workout_without_distance_def)
  have b: "\<forall>r\<in>set example_workouts. duration r \<noteq> Null \<and> caloriesBurned r \<noteq> Null"
    by (simp add: example_workouts_def)
  have pf1: "positive_float (float_literal (5 / 1000))"
    using d2 by (simp add: positive_float_def is_float_def lit)
  have pf2: "positive_float 1"
    using d5 by (simp add: positive_float_def is_float_def)
  have b': "\<forall>r\<in>set example_workouts. \<forall>d. distance r = Some d \<longrightarrow> positive_float d"
  proof (intro ballI allI impI)
    fix r d
    assume "r \<in> set example_workouts" and "distance r = Some d"
    then have "d = float_literal (5 / 1000) \<or> d = 1"
      by (auto simp: example_workouts_def)
    then show "positive_float d"
      using pf1 pf2 by auto
  qed
  have p: "present_distances example_workouts = [float_literal (5 / 1000), 1]"
    by (simp add: present_distances_def example_workouts_def List.map_filter_simps)
  have s: "left_sum [float_literal (5 / 1000), 1] = Fin (1131529406376837 / 2 ^ 50)"
    using d2 d3 by (simp add: left_sum_def lit)
  have r: "float_round (Fin (1131529406376837 / 2 ^ 50)) 2 = Fin 1"
    using d4 d5 by simp
  have x: "calculate_workout_stats left_sum workout_without_distance =
     Inr \<lparr>total_workouts = 1, total_duration = 1800, total_calories = 200,
          total_distance = None\<rparr>"
    using calculate_workout_stats_spec [OF a a' left_sum_nonzero]
    by (auto simp: workout_without_distance_def field_or_def present_distances_def
        List.map_filter_simps)
  obtain t where t: "calculate_workout_stats left_sum example_workouts =
             Inr \<lparr>total_workouts = length example_workouts,
                  total_duration = (\<Sum>r\<leftarrow>example_workouts. field_or 0 (duration r)),
                  total_calories = (\<Sum>r\<leftarrow>example_workouts. field_or 0 (caloriesBurned r)),
                  total_distance = t\<rparr>"
      "present_distances example_workouts \<noteq> [] \<longrightarrow>
         (\<exists>y. t = Some y
            \<and> rounded_to_decimals 2 (left_sum (present_distances example_workouts)) y)"
    using calculate_workout_stats_spec [OF b b' left_sum_nonzero] by blast
  from t(2) obtain y where y: "t = Some y"
      "rounded_to_decimals 2 (Fin (1131529406376837 / 2 ^ 50)) y"
    unfolding p s by auto
  have "y = Fin 1"
    using rounded_to_decimals_unique [OF y(2)] r by simp
  then have "calculate_workout_stats left_sum example_workouts =
       Inr \<lparr>total_workouts = 2, total_duration = 2400, total_calories = 90,
            total_distance = Some (Fin 1)\<rparr>"
    using t(1) y(1) by (simp add: example_workouts_def field_or_def)
  then show ?thesis
    using x p s by simp
qed

subsection \<open>BodyMetricStats\<close>

lemma sorted_hd_Min:
  fixes f :: "'a \<Rightarrow> 'b::linorder"
  assumes "xs \<noteq> []" and "sorted (map f xs)"
  shows "hd xs = hd (filter (\<lambda>y. f y = Min (f ` set xs)) xs)"
proof -
  obtain x ys where xs: "xs = x # ys"
    using assms(1) by (cases xs) auto
  have "\<forall>y\<in>set ys. f x \<le> f y"
    using assms(2) xs by simp
  then have "Min (f ` set xs) = f x"
    unfolding xs by (intro Min_eqI) auto
  then show ?thesis
    by (simp add: xs)
qed

lemma sorted_last_Max:
  fixes f :: "'a \<Rightarrow> 'b::linorder"
  assumes "xs \<noteq> []" and "sorted (map f xs)"
  shows "last xs = last (filter (\<lambda>y. f y = Max (f ` set xs)) xs)"
proof -
  obtain ys z where xs: "xs = ys @ [z]"
    using assms(1) by (cases xs rule: rev_cases) auto
  have "\<forall>y\<in>set ys. f y \<le> f z"
    using assms(2) xs by (simp add: sorted_append)
  then have "Max (f ` set xs) = f z"
    unfolding xs by (intro Max_eqI) auto
  then show ?thesis
    by (simp add: xs)
qed

lemma filter_Max_nonempty:
  fixes f :: "'a \<Rightarrow> 'b::linorder"
  shows "xs \<noteq> [] \<Longrightarrow> filter (\<lambda>y. f y = Max (f ` set xs)) xs \<noteq> []"
proof -
  assume "xs \<noteq> []"
  then have "Max (f ` set xs) \<in> f ` set xs"
    by (intro Max_in) auto
  then show ?thesis
    by (auto simp: filter_empty_conv)
qed

lemma filter_Min_nonempty:
  fixes f :: "'a \<Rightarrow> 'b::linorder"
  shows "xs \<noteq> [] \<Longrightarrow> filter (\<lambda>y. f y = Min (f ` set xs)) xs \<noteq> []"
proof -
  assume "xs \<noteq> []"
  then have "Min (f ` set xs) \<in> f ` set xs"
    by (intro Min_in) auto
  then show ?thesis
    by (auto simp: filter_empty_conv)
qed

lemma reverse_sort_ends:
  fixes f :: "'a \<Rightarrow> 'b::linorder"
  assumes "rs \<noteq> []"
  shows "hd (rev (sort_key f (rev rs))) = hd (filter (\<lambda>y. f y = Max (f ` set rs)) rs)"
    and "last (rev (sort_key f (rev rs))) = last (filter (\<lambda>y. f y = Min (f ` set rs)) rs)"
proof -
  let ?S = "sort_key f (rev rs)"
  have ne: "?S \<noteq> []"
    using assms by (metis length_0_conv length_sort length_rev)
  have set: "set ?S = set rs"
    by simp
  have so: "sorted (map f ?S)"
    by simp
  have st: "filter (\<lambda>y. f y = k) ?S = rev (filter (\<lambda>y. f y = k) rs)" for k
    by (simp add: sort_key_stable rev_filter)
  have "hd (rev ?S) = last ?S"
    using ne by (simp add: hd_rev)
  also have "\<dots> = last (filter (\<lambda>y. f y = Max (f ` set ?S)) ?S)"
    using ne so by (rule sorted_last_Max)
  also have "\<dots> = last (rev (filter (\<lambda>y. f y = Max (f ` set rs)) rs))"
    by (simp only: st set)
  also have "\<dots> = hd (filter (\<lambda>y. f y = Max (f ` set rs)) rs)"
    using filter_Max_nonempty [OF assms, of f] by (simp add: last_rev)
  finally show "hd (rev ?S) = hd (filter (\<lambda>y. f y = Max (f ` set rs)) rs)" .
  have "last (rev ?S) = hd ?S"
    using ne by (simp add: last_rev)
  also have "\<dots> = hd (filter (\<lambda>y. f y = Min (f ` set ?S)) ?S)"
    using ne so by (rule sorted_hd_Min)
  also have "\<dots> = hd (rev (filter (\<lambda>y. f y = Min (f ` set rs)) rs))"
    by (simp only: st set)
  also have "\<dots> = last (filter (\<lambda>y. f y = Min (f ` set rs)) rs)"
    using filter_Min_nonempty [OF assms, of f] by (simp add: hd_rev)
  finally show "last (rev ?S) = last (filter (\<lambda>y. f y = Min (f ` set rs)) rs)" .
qed

lemma sorted_records_of_ends:
  assumes "records \<noteq> []" and "sorted_records_of records = Inr sorted_records"
  shows "hd sorted_records = latest_record records"
    and "last sorted_records = oldest_record records"
    and "length sorted_records = length records"
proof -
  show "length sorted_records = length records"
    using assms(2) by (auto simp: sorted_records_of_def split: if_splits)
  show "hd sorted_records = latest_record records"
  proof (cases "length records < 2")
    case True
    with assms(1) obtain r where r: "records = [r]"
      by (cases records) (auto simp: less_Suc_eq numeral_2_eq_2)
    then have "sorted_records = [r]"
      using assms(2) by (simp add: sorted_records_of_def)
    then show ?thesis
      using r by (simp add: latest_record_def)
  next
    case False
    with assms(2) have "sorted_records = rev (sort_key recorded_key (rev records))"
      by (auto simp: sorted_records_of_def split: if_splits)
    then show ?thesis
      using reverse_sort_ends(1) [OF assms(1), of recorded_key]
      by (simp add: latest_record_def)
  qed
  show "last sorted_records = oldest_record records"
  proof (cases "length records < 2")
    case True
    with assms(1) obtain r where r: "records = [r]"
      by (cases records) (auto simp: less_Suc_eq numeral_2_eq_2)
    then have "sorted_records = [r]"
      using assms(2) by (simp add: sorted_records_of_def)
    then show ?thesis
      using r by (simp add: oldest_record_def)
  next
    case False
    with assms(2) have "sorted_records = rev (sort_key recorded_key (rev records))"
      by (auto simp: sorted_records_of_def split: if_splits)
    then show ?thesis
      using reverse_sort_ends(2) [OF assms(1), of recorded_key]
      by (simp add: oldest_record_def)
  qed
qed

lemma sorted_records_of_returns:
  assumes "length records < 2 \<or> (\<forall>r\<in>set records. recordedAt r \<noteq> Null)"
  shows "\<exists>sorted_records. sorted_records_of records = Inr sorted_records"
proof (cases "length records < 2")
  case True
  then show ?thesis by (simp add: sorted_records_of_def)
next
  case False
  have "False" if "recordedAt r \<noteq> Null" and "get_default (recordedAt r) [] = None" for r
    using that by (cases "recordedAt r") (simp_all add: get_default_def)
  then have "\<not> list_ex (\<lambda>r. get_default (recordedAt r) [] = None) records"
    using assms False unfolding list_ex_iff by blast
  then show ?thesis
    using False by (simp add: sorted_records_of_def)
qed

lemma mean_float_returns: "xs \<noteq> [] \<Longrightarrow> \<exists>m. mean_float xs = Inr m"
  by (cases xs) (simp_all add: mean_float_def mean_def Let_def)

lemma latest_record_in_set: "records \<noteq> [] \<Longrightarrow> latest_record records \<in> set records"
proof -
  assume ne: "records \<noteq> []"
  let ?F = "filter (\<lambda>r. recorded_key r = Max (recorded_key ` set records)) records"
  have "?F \<noteq> []" using ne by (rule filter_Max_nonempty)
  then have "hd ?F \<in> set ?F" by (rule hd_in_set)
  then show ?thesis by (simp add: latest_record_def)
qed

lemma oldest_record_in_set: "records \<noteq> [] \<Longrightarrow> oldest_record records \<in> set records"
proof -
  assume ne: "records \<noteq> []"
  let ?F = "filter (\<lambda>r. recorded_key r = Min (recorded_key ` set records)) records"
  have "?F \<noteq> []" using ne by (rule filter_Min_nonempty)
  then have "last ?F \<in> set ?F" by (rule last_in_set)
  then show ?thesis by (simp add: oldest_record_def)
qed

lemma if_truthy_positive:
  "\<forall>w. v = Some w \<longrightarrow> 0 < w \<Longrightarrow> (if_truthy v \<noteq> None) = (v \<noteq> None)"
  by (cases v) (auto simp: if_truthy_def)

text \<open>
  Claim C9. For every list of body-metric records in which \<open>recordedAt\<close> is a string
  wherever the key is there and every weight is positive, as the body-metric model of the
  repository admits them (\<open>weight\<close> is declared greater than 0),
  \<open>calculate_body_metrics_stats\<close> returns weight\_change equal to the absolute component
  of calculate\_change(oldest record's weight, latest record's weight) exactly when at
  least 2 records exist and both the oldest and the latest record have a weight, and
  returns weight\_change as absent otherwise; the latest record is the first of the input
  among those with the greatest recordedAt, the oldest the last among those with the
  least; a single-record input yields latest\_weight = that record's weight and
  weight\_change absent.
\<close>

theorem calculate_body_metrics_stats_weight_change:
  assumes "length records < 2 \<or> (\<forall>r\<in>set records. recordedAt r \<noteq> Null)"
    and "\<forall>r\<in>set records. \<forall>w. weight r = Some w \<longrightarrow> 0 < w"
  shows "\<exists>stats. calculate_body_metrics_stats records = Inr stats
           \<and> (records \<noteq> [] \<longrightarrow> latest_weight stats = weight (latest_record records))
           \<and> (2 \<le> length records
                \<and> weight (oldest_record records) \<noteq> None
                \<and> weight (latest_record records) \<noteq> None \<longrightarrow>
                (\<exists>c. calculate_change (weight (oldest_record records))
                        (weight (latest_record records)) = Inr c
                     \<and> weight_change stats = Some (absolute c)))
           \<and> (\<not> (2 \<le> length records
                   \<and> weight (oldest_record records) \<noteq> None
                   \<and> weight (latest_record records) \<noteq> None) \<longrightarrow>
                weight_change stats = None)
           \<and> (\<forall>r. records = [r] \<longrightarrow> latest_weight stats = weight r \<and> weight_change stats = None)"
proof (cases "records = []")
  case True
  then show ?thesis
    by (simp add: calculate_body_metrics_stats_def)
next
  case False
  from sorted_records_of_returns [OF assms(1)] obtain sorted_records
    where sr: "sorted_records_of records = Inr sorted_records"
    by blast
  note ends = sorted_records_of_ends [OF False sr]
  have ne: "sorted_records \<noteq> []"
    using ends(3) False by auto
  then obtain r0 rs0 where cons: "sorted_records = r0 # rs0"
    by (cases sorted_records) auto
  then have r0: "r0 = latest_record records"
    using ends(1) by simp
  have to: "(if_truthy (weight (oldest_record records)) \<noteq> None)
      = (weight (oldest_record records) \<noteq> None)"
    using assms(2) oldest_record_in_set [OF False] by (intro if_truthy_positive) blast
  have tl: "(if_truthy (weight (latest_record records)) \<noteq> None)
      = (weight (latest_record records) \<noteq> None)"
    using assms(2) latest_record_in_set [OF False] by (intro if_truthy_positive) blast
  let ?cond = "2 \<le> length records
                \<and> weight (oldest_record records) \<noteq> None
                \<and> weight (latest_record records) \<noteq> None"
  let ?weights = "List.map_filter (\<lambda>r. if_truthy (weight r)) records"
  obtain c where c: "calculate_change (weight (oldest_record records))
                        (weight (latest_record records)) = Inr c"
    using calculate_change_returns by blast
  obtain av where av: "(if ?weights \<noteq> []
                    then (case mean_float ?weights of
                            Inl e \<Rightarrow> Inl e
                          | Inr m \<Rightarrow> Inr (Some (float_round m 1)))
                    else Inr None) = Inr av"
    using mean_float_returns [of ?weights] by (cases "?weights = []") auto
  have single: "latest_record records = r \<and> \<not> ?cond" if "records = [r]" for r
    using that by (simp add: latest_record_def)
  have "calculate_body_metrics_stats records =
          Inr \<lparr>latest_weight = weight (latest_record records),
               average_weight = av,
               weight_change = (if ?cond then Some (absolute c) else None),
               latest_bmi = bmi (latest_record records),
               latest_body_fat = bodyFatPercentage (latest_record records)\<rparr>"
    using False sr av c ends to tl
    by (simp add: calculate_body_metrics_stats_def cons r0 Let_def)
  then show ?thesis
    using c single by auto
qed

theorem calculate_body_metrics_stats_weight_change_witness:
  "calculate_body_metrics_stats example_metrics =
     Inr \<lparr>latest_weight = Some (785 / 10), average_weight = Some (nearest_float (792 / 10)),
          weight_change = Some (Fin (- (15 / 10))), latest_bmi = None,
          latest_body_fat = Some 20\<rparr>
   \<and> weight (oldest_record example_metrics) = Some 80
   \<and> weight (latest_record example_metrics) = Some (785 / 10)
   \<and> calculate_change (Some 80) (Some (785 / 10))
       = Inr \<lparr>absolute = Fin (- (15 / 10)), percentage = nearest_float (- (188 / 100))\<rparr>
   \<and> calculate_body_metrics_stats single_metric =
       Inr \<lparr>latest_weight = Some 80, average_weight = Some (Fin 80), weight_change = None,
            latest_bmi = Some 25, latest_body_fat = None\<rparr>"
proof -
  have w1: "nearest_float (- (3 / 2)) = Fin (- (3 / 2))"
    using nearest_float_exact [of "- (3 / 2)" "- 3" "- 1"] by simp
  have w2: "nearest_float (- (3 / 160)) = Fin (- (5404319552844595 / 2 ^ 58))"
    using nearest_float_near [of "- (3 / 160)" "- 6" "- 58" "- 5404319552844595"] by simp
  have w3: "nearest_float (- (135107988821114875 / 2 ^ 56)) = Fin (- (15 / 8))"
    using nearest_float_near [of "- (135107988821114875 / 2 ^ 56)" "0" "- 52"
        "- 8444249301319680"]
    by simp
  have w4: "py_round_int (- 150) = - 150"
    using py_round_int_of_int [of "- 150"] by simp
  have w5: "py_round_int (- (375 / 2)) = - 188"
    by (rule py_round_int_unique) simp_all
  have w6: "nearest_float (317 / 4) = Fin (317 / 4)"
    using nearest_float_exact [of "317 / 4" "317" "- 2"] by simp
  have w7: "py_round_int (1585 / 2) = 792"
    by (rule py_round_int_unique) simp_all
  have w8: "nearest_float 80 = Fin 80"
    using nearest_float_exact [of "80" "5" "4"] by simp
  have w9: "py_round_int 800 = 800"
    using py_round_int_of_int [of 800] by simp
  have a: "length example_metrics < 2 \<or> (\<forall>r\<in>set example_metrics. recordedAt r \<noteq> Null)"
    by (simp add: example_metrics_def)
  have a': "\<forall>r\<in>set example_metrics. \<forall>w. weight r = Some w \<longrightarrow> 0 < w"
    by (auto simp: example_metrics_def)
  have b: "length single_metric < 2 \<or> (\<forall>r\<in>set single_metric. recordedAt r \<noteq> Null)"
    by (simp add: single_metric_def)
  have b': "\<forall>r\<in>set single_metric. \<forall>w. weight r = Some w \<longrightarrow> 0 < w"
    by (auto simp: single_metric_def)
  have ch: "calculate_change (Some 80) (Some (785 / 10))
       = Inr \<lparr>absolute = Fin (- (15 / 10)), percentage = nearest_float (- (188 / 100))\<rparr>"
    using w1 w2 w3 w4 w5
    by (simp add: calculate_change_def float_truediv_def float_sub_def Let_def)
  have so: "sorted_records_of example_metrics =
      Inr [example_metrics ! 1, example_metrics ! 2, example_metrics ! 0]"
    by (simp add: sorted_records_of_def example_metrics_def recorded_key_def field_or_def
        get_default_def)
  have old: "weight (oldest_record example_metrics) = Some 80"
    using sorted_records_of_ends(2) [OF _ so] by (simp add: example_metrics_def)
  have new: "weight (latest_record example_metrics) = Some (785 / 10)"
    using sorted_records_of_ends(1) [OF _ so] by (simp add: example_metrics_def)
  have mf: "mean_float [80, 785 / 10] = Inr (Fin (317 / 4))"
    using w6 by (simp add: mean_float_def mean_def)
  have e1: "calculate_body_metrics_stats example_metrics =
     Inr \<lparr>latest_weight = Some (785 / 10), average_weight = Some (nearest_float (792 / 10)),
          weight_change = Some (Fin (- (15 / 10))), latest_bmi = None,
          latest_body_fat = Some 20\<rparr>"
    unfolding calculate_body_metrics_stats_def so
    using ch mf w7
    by (simp add: example_metrics_def if_truthy_def List.map_filter_simps)
  have e2: "calculate_body_metrics_stats single_metric =
       Inr \<lparr>latest_weight = Some 80, average_weight = Some (Fin 80), weight_change = None,
            latest_bmi = Some 25, latest_body_fat = None\<rparr>"
    using w8 w9
    by (simp add: calculate_body_metrics_stats_def single_metric_def sorted_records_of_def
        if_truthy_def List.map_filter_simps mean_float_def mean_def)
  show ?thesis
    using e1 e2 old new ch
      calculate_body_metrics_stats_weight_change [OF a a']
      calculate_body_metrics_stats_weight_change [OF b b']
    by simp
qed

end
